theory Spec2Isabelle
  imports Main
begin

section \<open>Strings\<close>

text \<open>
  A JavaScript string is a sequence of UTF-16 code units. A code unit is modelled as a
  natural number (below 65536 in the program); the scanner only compares code units, so
  no definition depends on the bound. \<open>str\<close> reads an ASCII literal as such a sequence.
\<close>

type_synonym codeunit = nat
type_synonym jstring = "codeunit list"

definition str :: "string \<Rightarrow> jstring" where
  "str s = map of_char s"

text \<open>
  \<open>String.prototype.trim\<close> strips WhiteSpace and LineTerminator code units from both ends:
  TAB, LF, VT, FF, CR, SP, NBSP, U+1680, U+2000..U+200A, U+2028, U+2029, U+202F, U+205F,
  U+3000 and U+FEFF. The class \<open>\s\<close> of a regular expression is the same set.
\<close>

definition isWhiteSpace :: "codeunit \<Rightarrow> bool" where
  "isWhiteSpace c =
     (c = 9 \<or> c = 10 \<or> c = 11 \<or> c = 12 \<or> c = 13 \<or> c = 32 \<or> c = 160 \<or> c = 5760
      \<or> (8192 \<le> c \<and> c \<le> 8202) \<or> c = 8232 \<or> c = 8233 \<or> c = 8239 \<or> c = 8287
      \<or> c = 12288 \<or> c = 65279)"

text \<open>The dot of a regular expression (without the \<open>s\<close> flag) excludes LF, CR, U+2028, U+2029.\<close>

definition isLineTerminator :: "codeunit \<Rightarrow> bool" where
  "isLineTerminator c = (c = 10 \<or> c = 13 \<or> c = 8232 \<or> c = 8233)"

definition trim :: "jstring \<Rightarrow> jstring" where
  "trim s = rev (dropWhile isWhiteSpace (rev (dropWhile isWhiteSpace s)))"

text \<open>\<open>s.split(d)\<close> for a one-unit separator: the pieces between the separators, at least one.\<close>

fun split :: "codeunit \<Rightarrow> jstring \<Rightarrow> jstring list" where
  "split d [] = [[]]"
| "split d (c # cs) =
     (if c = d then [] # split d cs
      else (case split d cs of [] \<Rightarrow> [[c]] | l # ls \<Rightarrow> (c # l) # ls))"

definition startsWith :: "jstring \<Rightarrow> jstring \<Rightarrow> bool" where
  "startsWith s p = (take (length p) s = p)"

section \<open>Regular expressions\<close>

text \<open>
  The fragment of the regular expression syntax that the rule catalog uses. \<open>Class neg rs\<close>
  is a bracket class given by its ranges (\<open>[^...]\<close> when \<open>neg\<close>), \<open>Bol\<close> and \<open>Eol\<close> are
  \<open>^\<close> and \<open>$\<close> (no \<open>m\<close> flag: start and end of the input), \<open>NegLookahead\<close> is \<open>(?!...)\<close>.
  Groups only structure the expression: \<open>test\<close> does not read captures.
\<close>

datatype re =
    Empty
  | Lit codeunit
  | Dot
  | Class bool "(codeunit \<times> codeunit) list"
  | Bol
  | Eol
  | Seq re re
  | Alt re re
  | Star re
  | NegLookahead re

record regexp =
  source :: re
  ignoreCase :: bool

text \<open>\<open>r+\<close>, \<open>r{n,}\<close>, a literal word and an alternation of several branches.\<close>

definition Plus :: "re \<Rightarrow> re" where
  "Plus r = Seq r (Star r)"

fun AtLeast :: "nat \<Rightarrow> re \<Rightarrow> re" where
  "AtLeast 0 r = Star r"
| "AtLeast (Suc n) r = Seq r (AtLeast n r)"

fun Word :: "jstring \<Rightarrow> re" where
  "Word [] = Empty"
| "Word [c] = Lit c"
| "Word (c # cs) = Seq (Lit c) (Word cs)"

fun Alts :: "re list \<Rightarrow> re" where
  "Alts [] = NegLookahead Empty"
| "Alts [r] = r"
| "Alts (r # rs) = Alt r (Alts rs)"

fun Seqs :: "re list \<Rightarrow> re" where
  "Seqs [] = Empty"
| "Seqs [r] = r"
| "Seqs (r # rs) = Seq r (Seqs rs)"

text \<open>
  Canonicalize of the \<open>i\<close> flag (non-Unicode mode) upper-cases a code unit, and never maps
  a non-ASCII unit to an ASCII one. On ASCII this is the map below; the case pairs among
  non-ASCII letters are left out, so the model is exact for patterns whose literals and
  class ranges are ASCII or caseless, as all catalog patterns are.
\<close>

definition canonicalize :: "bool \<Rightarrow> codeunit \<Rightarrow> codeunit" where
  "canonicalize ic c = (if ic \<and> 97 \<le> c \<and> c \<le> 122 then c - 32 else c)"

definition inRanges :: "(codeunit \<times> codeunit) list \<Rightarrow> codeunit \<Rightarrow> bool" where
  "inRanges rs c = list_ex (\<lambda>(lo, hi). lo \<le> c \<and> c \<le> hi) rs"

text \<open>A class contains \<open>c\<close> under the \<open>i\<close> flag when it contains a unit with the same canonical form.\<close>

definition classHas :: "bool \<Rightarrow> (codeunit \<times> codeunit) list \<Rightarrow> codeunit \<Rightarrow> bool" where
  "classHas ic rs c =
     (inRanges rs c
      \<or> (ic \<and> 97 \<le> c \<and> c \<le> 122 \<and> inRanges rs (c - 32))
      \<or> (ic \<and> 65 \<le> c \<and> c \<le> 90 \<and> inRanges rs (c + 32)))"

text \<open>
  A matcher state is the remaining input and whether the position is the start of the
  input. \<open>matchRe ic r st\<close> lists the states in which a match of \<open>r\<close> begun in \<open>st\<close> can end.
  \<open>iterate\<close> is the star: an iteration that consumes nothing adds no state, so only
  consuming iterations are followed, at most one per remaining code unit.
\<close>

type_synonym mstate = "bool \<times> jstring"

fun iterate :: "nat \<Rightarrow> (mstate \<Rightarrow> mstate list) \<Rightarrow> mstate \<Rightarrow> mstate list" where
  "iterate 0 f st = [st]"
| "iterate (Suc n) f st =
     st # concat (map (iterate n f) (filter (\<lambda>t. length (snd t) < length (snd st)) (f st)))"

fun consume :: "(codeunit \<Rightarrow> bool) \<Rightarrow> mstate \<Rightarrow> mstate list" where
  "consume P (b, []) = []"
| "consume P (b, c # cs) = (if P c then [(False, cs)] else [])"

primrec matchRe :: "bool \<Rightarrow> re \<Rightarrow> mstate \<Rightarrow> mstate list" where
  "matchRe ic Empty st = [st]"
| "matchRe ic (Lit a) st = consume (\<lambda>c. canonicalize ic c = canonicalize ic a) st"
| "matchRe ic Dot st = consume (\<lambda>c. \<not> isLineTerminator c) st"
| "matchRe ic (Class neg rs) st = consume (\<lambda>c. classHas ic rs c \<noteq> neg) st"
| "matchRe ic Bol st = (if fst st then [st] else [])"
| "matchRe ic Eol st = (if snd st = [] then [st] else [])"
| "matchRe ic (Seq r1 r2) st = concat (map (matchRe ic r2) (matchRe ic r1 st))"
| "matchRe ic (Alt r1 r2) st = matchRe ic r1 st @ matchRe ic r2 st"
| "matchRe ic (Star r) st = iterate (length (snd st)) (matchRe ic r) st"
| "matchRe ic (NegLookahead r) st = (if matchRe ic r st = [] then [st] else [])"

text \<open>
  \<open>RegExp.prototype.test\<close> of a pattern without the \<open>g\<close> and \<open>y\<close> flags (as every catalog
  pattern): is there a match starting at some index of the input, from 0 to its length.
\<close>

fun testFrom :: "bool \<Rightarrow> re \<Rightarrow> mstate \<Rightarrow> bool" where
  "testFrom ic r (b, []) = (matchRe ic r (b, []) \<noteq> [])"
| "testFrom ic r (b, c # cs) =
     (if matchRe ic r (b, c # cs) \<noteq> [] then True else testFrom ic r (False, cs))"

definition test :: "regexp \<Rightarrow> jstring \<Rightarrow> bool" where
  "test p s = testFrom (ignoreCase p) (source p) (True, s)"

text \<open>
  What the patterns mean, as a relation between the state where a match begins and a
  state where it can end: the star is the reflexive transitive closure. The matcher
  above computes this relation (\<open>matchRe_lang\<close>, \<open>test_lang\<close>).
\<close>

primrec lang :: "bool \<Rightarrow> re \<Rightarrow> (mstate \<times> mstate) set" where
  "lang ic Empty = Id"
| "lang ic (Lit a) =
     {((b, c # cs), (False, cs)) | b c cs. canonicalize ic c = canonicalize ic a}"
| "lang ic Dot = {((b, c # cs), (False, cs)) | b c cs. \<not> isLineTerminator c}"
| "lang ic (Class neg rs) = {((b, c # cs), (False, cs)) | b c cs. classHas ic rs c \<noteq> neg}"
| "lang ic Bol = {((True, s), (True, s)) | s. True}"
| "lang ic Eol = {((b, []), (b, [])) | b. True}"
| "lang ic (Seq r1 r2) = lang ic r1 O lang ic r2"
| "lang ic (Alt r1 r2) = lang ic r1 \<union> lang ic r2"
| "lang ic (Star r) = (lang ic r)\<^sup>*"
| "lang ic (NegLookahead r) = {(st, st) | st. \<forall>st'. (st, st') \<notin> lang ic r}"

section \<open>Data model\<close>

datatype Severity = CRITICAL | WARNING | INFO

datatype FixType = mask | remove | comment

record QuickFix =
  fixType :: FixType
  replacement :: jstring

text \<open>
  A rule object. The scanner guards every pattern with a truthiness check, so each of the
  three patterns may be absent.
\<close>

record ScanRule =
  rid :: jstring
  name :: jstring
  description :: jstring
  severity :: Severity
  pattern :: "regexp option"
  keyPattern :: "regexp option"
  valuePattern :: "regexp option"
  suggestion :: jstring
  enabled :: bool

record EnvFinding =
  line :: nat
  column :: nat
  key :: jstring
  val :: jstring
  fseverity :: Severity
  ruleId :: jstring
  message :: jstring
  fsuggestion :: jstring
  quickFix :: "QuickFix option"

text \<open>\<open>scannedAt\<close> is the clock reading at the end of the scan, passed in as \<open>now\<close>.\<close>

record ScanResult =
  filePath :: jstring
  findings :: "EnvFinding list"
  scannedAt :: nat
  totalLines :: nat
  criticalCount :: nat
  warningCount :: nat
  infoCount :: nat

section \<open>The scanner\<close>

definition generateQuickFix :: "ScanRule \<Rightarrow> jstring \<Rightarrow> jstring \<Rightarrow> jstring \<Rightarrow> QuickFix" where
  "generateQuickFix rule k v fullLine =
     (case severity rule of
        CRITICAL \<Rightarrow>
          \<lparr>fixType = comment,
           replacement = str ''# '' @ fullLine @ str '' # SECURITY: '' @ suggestion rule\<rparr>
      | WARNING \<Rightarrow>
          \<lparr>fixType = mask, replacement = k @ str ''=***MASKED***''\<rparr>
      | _ \<Rightarrow>
          \<lparr>fixType = comment,
           replacement = str ''# '' @ fullLine @ str '' # INFO: '' @ suggestion rule\<rparr>)"

text \<open>The three assignments to the local \<open>matches\<close>, in the order of the source.\<close>

definition ruleMatches :: "ScanRule \<Rightarrow> jstring \<Rightarrow> jstring \<Rightarrow> jstring \<Rightarrow> bool" where
  "ruleMatches rule k v fullLine =
     (let matches = False;
          matches = (case pattern rule of
                       Some p \<Rightarrow> if test p fullLine then True else matches
                     | None \<Rightarrow> matches);
          matches = (case keyPattern rule of
                       Some p \<Rightarrow> if test p k then matches else False
                     | None \<Rightarrow> matches);
          matches = (case valuePattern rule of
                       Some p \<Rightarrow> if test p v then matches else False
                     | None \<Rightarrow> matches)
      in matches)"

definition applyRule ::
  "ScanRule \<Rightarrow> jstring \<Rightarrow> jstring \<Rightarrow> nat \<Rightarrow> jstring \<Rightarrow> EnvFinding option" where
  "applyRule rule k v lineNumber fullLine =
     (if ruleMatches rule k v fullLine then
        Some \<lparr>line = lineNumber,
              column = 1,
              key = k,
              val = v,
              fseverity = severity rule,
              ruleId = rid rule,
              message = name rule @ str '': '' @ description rule,
              fsuggestion = suggestion rule,
              quickFix = Some (generateQuickFix rule k v fullLine)\<rparr>
      else None)"

definition createScanResult :: "nat \<Rightarrow> jstring \<Rightarrow> EnvFinding list \<Rightarrow> nat \<Rightarrow> ScanResult" where
  "createScanResult now fp fs n =
     \<lparr>filePath = fp,
      findings = fs,
      scannedAt = now,
      totalLines = n,
      criticalCount = length (filter (\<lambda>f. fseverity f = CRITICAL) fs),
      warningCount = length (filter (\<lambda>f. fseverity f = WARNING) fs),
      infoCount = length (filter (\<lambda>f. fseverity f = INFO) fs)\<rparr>"

text \<open>
  \<open>trimmedLine.match(/^([^=]+)=(.*)$/)\<close>: the first group cannot contain \<open>=\<close> and is
  followed by one, so it is the text before the first \<open>=\<close>, and must not be empty; the
  second group is the whole rest, which the dot accepts only without line terminators.
\<close>

definition matchKeyValue :: "jstring \<Rightarrow> (jstring \<times> jstring) option" where
  "matchKeyValue l =
     (let k = takeWhile (\<lambda>c. c \<noteq> 61) l;
          r = dropWhile (\<lambda>c. c \<noteq> 61) l
      in if k = [] \<or> r = [] \<or> list_ex isLineTerminator (tl r) then None
         else Some (k, tl r))"

text \<open>The body of the inner \<open>forEach\<close>: one rule on one parsed line.\<close>

definition scanRule ::
  "jstring \<Rightarrow> jstring \<Rightarrow> nat \<Rightarrow> jstring \<Rightarrow> EnvFinding list \<Rightarrow> ScanRule \<Rightarrow> EnvFinding list" where
  "scanRule cleanKey cleanValue lineNumber trimmedLine fs rule =
     (if \<not> enabled rule then fs
      else (case applyRule rule cleanKey cleanValue lineNumber trimmedLine of
              None \<Rightarrow> fs
            | Some finding \<Rightarrow> fs @ [finding]))"

text \<open>
  The head of the outer \<open>forEach\<close> body: trim, skip blank lines and comments, match the
  \<open>key=value\<close> shape, trim both groups. \<open>None\<close> is the early \<open>return\<close>; otherwise the
  result is \<open>(trimmedLine, cleanKey, cleanValue)\<close>.
\<close>

definition parseLine :: "jstring \<Rightarrow> (jstring \<times> jstring \<times> jstring) option" where
  "parseLine l =
     (let trimmedLine = trim l
      in if trimmedLine = [] \<or> startsWith trimmedLine (str ''#'') then None
         else (case matchKeyValue trimmedLine of
                 None \<Rightarrow> None
               | Some (k, v) \<Rightarrow> Some (trimmedLine, trim k, trim v)))"

text \<open>The body of the outer \<open>forEach\<close>: one physical line with its index.\<close>

definition scanLine :: "ScanRule list \<Rightarrow> EnvFinding list \<Rightarrow> jstring \<times> nat \<Rightarrow> EnvFinding list" where
  "scanLine rules fs li =
     (let lineNumber = snd li + 1
      in case parseLine (fst li) of
           None \<Rightarrow> fs
         | Some (trimmedLine, cleanKey, cleanValue) \<Rightarrow>
             foldl (scanRule cleanKey cleanValue lineNumber trimmedLine) fs rules)"

definition scanContent :: "ScanRule list \<Rightarrow> nat \<Rightarrow> jstring \<Rightarrow> jstring \<Rightarrow> ScanResult" where
  "scanContent rules now content fp =
     (let lines = split 10 content;
          fs = foldl (scanLine rules) [] (zip lines [0..<length lines])
      in createScanResult now fp fs (length lines))"

section \<open>The rule catalog\<close>

definition cu :: "char \<Rightarrow> codeunit" where
  "cu c = of_char c"

definition anything :: re where
  "anything = Star Dot"

text \<open>The class \<open>\s\<close>, as ranges.\<close>

definition space :: re where
  "space = Class False [(9, 13), (32, 32), (160, 160), (5760, 5760), (8192, 8202),
     (8232, 8233), (8239, 8239), (8287, 8287), (12288, 12288), (65279, 65279)]"

definition containing :: "string \<Rightarrow> re" where
  "containing w = Seqs [anything, Word (str w), anything]"

definition password_hardcoded :: ScanRule where
  "password_hardcoded =
     \<lparr>rid = str ''password-hardcoded'',
      name = str ''Hardcoded Password'',
      description = str ''Detects hardcoded passwords in environment variables'',
      severity = CRITICAL,
      pattern = Some \<lparr>source = Seqs [Bol,
          Alts [containing ''password'', containing ''pwd'', containing ''pass''],
          Lit (cu CHR ''=''), Plus Dot, Eol], ignoreCase = True\<rparr>,
      keyPattern = Some \<lparr>source =
          Alts [Word (str ''password''), Word (str ''pwd''), Word (str ''pass'')],
          ignoreCase = True\<rparr>,
      valuePattern = Some \<lparr>source = Seqs [Bol,
          NegLookahead (Seq anything
            (Alts [Word (str ''${''), Word (str ''%{''), Lit (cu CHR ''<''), Lit (cu CHR ''>'')])),
          AtLeast 1 Dot, Eol], ignoreCase = False\<rparr>,
      suggestion = str ''Remove hardcoded password and use secure environment variable injection'',
      enabled = True\<rparr>"

definition api_key_exposed :: ScanRule where
  "api_key_exposed =
     \<lparr>rid = str ''api-key-exposed'',
      name = str ''Exposed API Key'',
      description = str ''Detects potentially exposed API keys'',
      severity = CRITICAL,
      pattern = Some \<lparr>source = Seqs [Bol,
          Alts [Seqs [anything, Word (str ''api''), anything, Word (str ''key''), anything],
                containing ''secret'', containing ''token''],
          Lit (cu CHR ''=''), Plus Dot, Eol], ignoreCase = True\<rparr>,
      keyPattern = Some \<lparr>source =
          Alts [Seqs [Word (str ''api''), anything, Word (str ''key'')],
                Word (str ''secret''), Word (str ''token'')],
          ignoreCase = True\<rparr>,
      valuePattern = Some \<lparr>source = Seqs [Bol,
          AtLeast 20 (Class False [(cu CHR ''a'', cu CHR ''z''), (cu CHR ''A'', cu CHR ''Z''),
            (cu CHR ''0'', cu CHR ''9''), (cu CHR ''_'', cu CHR ''_''), (cu CHR ''-'', cu CHR ''-'')]),
          Eol], ignoreCase = False\<rparr>,
      suggestion = str ''Use environment variable injection or secure key management'',
      enabled = True\<rparr>"

definition database_url_exposed :: ScanRule where
  "database_url_exposed =
     \<lparr>rid = str ''database-url-exposed'',
      name = str ''Database URL with Credentials'',
      description = str ''Detects database URLs containing credentials'',
      severity = CRITICAL,
      pattern = Some \<lparr>source = Seqs [Bol, anything, Word (str ''_url''), anything,
          Lit (cu CHR ''=''), anything, Word (str ''://''), anything, Lit (cu CHR '':''),
          anything, Lit (cu CHR ''@''), anything, Eol], ignoreCase = True\<rparr>,
      keyPattern = Some \<lparr>source = containing ''url'', ignoreCase = True\<rparr>,
      valuePattern = Some \<lparr>source = Seqs [Word (str ''://''),
          Plus (Class True [(cu CHR '':'', cu CHR '':'')]), Lit (cu CHR '':''),
          Plus (Class True [(cu CHR ''@'', cu CHR ''@'')]), Lit (cu CHR ''@'')],
          ignoreCase = False\<rparr>,
      suggestion = str ''Remove credentials from URL and use separate environment variables'',
      enabled = True\<rparr>"

definition onValues :: re where
  "onValues = Alts [Word (str ''true''), Word (str ''1''), Word (str ''on''), Word (str ''yes'')]"

definition debug_enabled :: ScanRule where
  "debug_enabled =
     \<lparr>rid = str ''debug-enabled'',
      name = str ''Debug Mode Enabled'',
      description = str ''Debug mode should not be enabled in production'',
      severity = WARNING,
      pattern = Some \<lparr>source = Seqs [Bol, Word (str ''debug''), Star space,
          Lit (cu CHR ''=''), Star space, onValues, Eol], ignoreCase = True\<rparr>,
      keyPattern = Some \<lparr>source = Seqs [Bol, Word (str ''debug''), Eol], ignoreCase = True\<rparr>,
      valuePattern = Some \<lparr>source = Seqs [Bol, onValues, Eol], ignoreCase = True\<rparr>,
      suggestion = str ''Set DEBUG=false or remove for production environments'',
      enabled = True\<rparr>"

definition private_key_exposed :: ScanRule where
  "private_key_exposed =
     \<lparr>rid = str ''private-key-exposed'',
      name = str ''Private Key Exposed'',
      description = str ''Detects private keys or certificates in plain text'',
      severity = CRITICAL,
      pattern = Some \<lparr>source = Seqs [Bol, anything, Word (str ''private''), anything,
          Word (str ''key''), anything, Lit (cu CHR ''=''), anything, Word (str ''BEGIN''),
          anything, Word (str ''PRIVATE''), anything, Word (str ''KEY''), anything, Eol],
          ignoreCase = True\<rparr>,
      keyPattern = Some \<lparr>source = Seqs [Word (str ''private''), anything, Word (str ''key'')],
          ignoreCase = True\<rparr>,
      valuePattern = Some \<lparr>source = Seqs [Word (str ''BEGIN''), anything,
          Word (str ''PRIVATE''), anything, Word (str ''KEY'')], ignoreCase = False\<rparr>,
      suggestion = str ''Store private keys in secure key management system'',
      enabled = True\<rparr>"

definition weakValues :: re where
  "weakValues = Alts [Word (str ''123456''), Word (str ''password''), Word (str ''admin''),
     Word (str ''root''), Word (str ''test''), Word (str ''demo'')]"

definition weak_password :: ScanRule where
  "weak_password =
     \<lparr>rid = str ''weak-password'',
      name = str ''Weak Password'',
      description = str ''Detects commonly used weak passwords'',
      severity = WARNING,
      pattern = Some \<lparr>source = Seqs [Bol, anything, Word (str ''password''), anything,
          Lit (cu CHR ''=''), Star space, weakValues, Eol], ignoreCase = True\<rparr>,
      keyPattern = Some \<lparr>source = Word (str ''password''), ignoreCase = True\<rparr>,
      valuePattern = Some \<lparr>source = Seqs [Bol, weakValues, Eol], ignoreCase = True\<rparr>,
      suggestion = str ''Use a strong, unique password'',
      enabled = True\<rparr>"

definition localhost_url :: ScanRule where
  "localhost_url =
     \<lparr>rid = str ''localhost-url'',
      name = str ''Localhost URL'',
      description = str ''Localhost URLs should not be used in production'',
      severity = INFO,
      pattern = Some \<lparr>source = Seqs [Bol, anything, Word (str ''url''), anything,
          Lit (cu CHR ''=''), anything, Word (str ''localhost''), anything, Eol],
          ignoreCase = True\<rparr>,
      keyPattern = Some \<lparr>source = Word (str ''url''), ignoreCase = True\<rparr>,
      valuePattern = Some \<lparr>source = Word (str ''localhost''), ignoreCase = True\<rparr>,
      suggestion = str ''Replace with production URL or use environment-specific configuration'',
      enabled = True\<rparr>"

definition DEFAULT_RULES :: "ScanRule list" where
  "DEFAULT_RULES = [password_hardcoded, api_key_exposed, database_url_exposed, debug_enabled,
     private_key_exposed, weak_password, localhost_url]"

text \<open>
  The shape that \<open>matchKeyValue\<close> tests, as a pattern of the matcher above:
  \<open>/^([^=]+)=(.*)$/\<close>.
\<close>

definition keyValueShape :: regexp where
  "keyValueShape =
     \<lparr>source = Seqs [Bol, Plus (Class True [(61, 61)]), Lit 61, Star Dot, Eol],
      ignoreCase = False\<rparr>"

section \<open>Rule management\<close>

text \<open>
  The rule array holds references to rule objects, and \<open>toggleRule\<close> writes to the object
  it finds: the store maps a reference to the object's current fields. A scan reads the
  rules through the store.
\<close>

type_synonym ref = nat
type_synonym store = "ref \<Rightarrow> ScanRule"

definition getRules :: "store \<Rightarrow> ref list \<Rightarrow> ScanRule list" where
  "getRules h rs = map h rs"

definition addRule :: "ref list \<Rightarrow> ref \<Rightarrow> ref list" where
  "addRule rs r = rs @ [r]"

definition toggleRule :: "store \<Rightarrow> ref list \<Rightarrow> jstring \<Rightarrow> bool \<Rightarrow> store" where
  "toggleRule h rs rule_id en =
     (case find (\<lambda>r. rid (h r) = rule_id) rs of
        None \<Rightarrow> h
      | Some rule \<Rightarrow> h(rule := (h rule)\<lparr>enabled := en\<rparr>))"

text \<open>\<open>getRuleById\<close> searches the catalog array \<open>ds\<close>; \<open>None\<close> is \<open>undefined\<close>.\<close>

definition getRuleById :: "store \<Rightarrow> ref list \<Rightarrow> jstring \<Rightarrow> ref option" where
  "getRuleById h ds rule_id = find (\<lambda>rule. rid (h rule) = rule_id) ds"

definition getEnabledRules :: "store \<Rightarrow> ref list \<Rightarrow> ref list" where
  "getEnabledRules h ds = filter (\<lambda>rule. enabled (h rule)) ds"

text \<open>The store after the catalog literal is evaluated: object \<open>i\<close> is the \<open>i\<close>-th rule.\<close>

definition catalogRefs :: "ref list" where
  "catalogRefs = [0, 1, 2, 3, 4, 5, 6]"

definition catalogStore :: store where
  "catalogStore r =
     (if r = 0 then password_hardcoded else if r = 1 then api_key_exposed
      else if r = 2 then database_url_exposed else if r = 3 then debug_enabled
      else if r = 4 then private_key_exposed else if r = 5 then weak_password
      else localhost_url)"

section \<open>The reporter\<close>

text \<open>
  The counters are array lengths and sums of them. They are modelled as natural numbers;
  the program adds them as doubles, which is exact below \<open>2^53\<close>.
\<close>

record Summary =
  filesScanned :: nat
  totalFindings :: nat
  critical :: nat
  warnings :: nat
  info :: nat

definition generateSummary :: "ScanResult list \<Rightarrow> Summary" where
  "generateSummary results =
     (let totalFindings' = foldl (\<lambda>sum r. sum + length (findings r)) 0 results;
          critical' = foldl (\<lambda>sum r. sum + criticalCount r) 0 results;
          warnings' = foldl (\<lambda>sum r. sum + warningCount r) 0 results;
          info' = foldl (\<lambda>sum r. sum + infoCount r) 0 results
      in \<lparr>filesScanned = length results,
          totalFindings = totalFindings',
          critical = critical',
          warnings = warnings',
          info = info'\<rparr>)"

text \<open>A natural number in a template string: its decimal digits.\<close>

function showNat :: "nat \<Rightarrow> jstring" where
  "showNat n = (if n < 10 then [48 + n] else showNat (n div 10) @ [48 + n mod 10])"
  by pat_completeness auto
termination
  by (relation "measure (\<lambda>n. n)") auto

declare showNat.simps [simp del]

definition repeat :: "jstring \<Rightarrow> nat \<Rightarrow> jstring" where
  "repeat s n = concat (replicate n s)"

text \<open>The icons are given by their code units; the \<open>default\<close> branch has no severity left.\<close>

definition getSeverityIcon :: "Severity \<Rightarrow> jstring" where
  "getSeverityIcon s =
     (case s of CRITICAL \<Rightarrow> [55357, 57000] | WARNING \<Rightarrow> [9888, 65039] | INFO \<Rightarrow> [8505, 65039])"

definition reportFinding :: "jstring \<Rightarrow> EnvFinding \<Rightarrow> jstring" where
  "reportFinding output finding =
     (let icon = getSeverityIcon (fseverity finding);
          output = output @ icon @ str '' Line '' @ showNat (line finding) @ str '': ''
                     @ message finding @ [10];
          output = output @ str ''   Key: '' @ key finding @ [10];
          output = output @ str ''   '' @ [55357, 56481] @ str '' '' @ fsuggestion finding
                     @ [10, 10]
      in output)"

definition reportResult :: "jstring \<Rightarrow> ScanResult \<Rightarrow> jstring" where
  "reportResult output result =
     (if length (findings result) = 0 then output
      else (let output = output @ [55357, 56516] @ str '' '' @ filePath result @ [10];
                output = output @ repeat (str ''='') (length (filePath result) + 2) @ [10]
            in foldl reportFinding output (findings result)))"

definition generateConsoleReport :: "ScanResult list \<Rightarrow> jstring" where
  "generateConsoleReport results =
     (let summary = generateSummary results;
          output = [10] @ str ''=== ENV-CHECKER SECURITY REPORT ==='' @ [10, 10];
          output = output @ str ''Files scanned: '' @ showNat (filesScanned summary) @ [10];
          output = output @ str ''Total findings: '' @ showNat (totalFindings summary) @ [10];
          output = output @ str ''Critical: '' @ showNat (critical summary)
                     @ str '' | Warnings: '' @ showNat (warnings summary)
                     @ str '' | Info: '' @ showNat (info summary) @ [10, 10]
      in foldl reportResult output results)"

section \<open>The structure of a scan\<close>

text \<open>
  The two loops only append: the findings of a scan are the findings of its lines, in
  order, and the findings of a line are those of the enabled matching rules, in order.
\<close>

lemma foldl_scanRule:
  "foldl (scanRule k v n t) fs rules =
     fs @ map (\<lambda>r. the (applyRule r k v n t)) (filter (\<lambda>r. enabled r \<and> ruleMatches r k v t) rules)"
  by (induction rules arbitrary: fs) (auto simp: scanRule_def applyRule_def)

lemma scanLine_Nil:
  "scanLine rules [] (l, i) =
     (case parseLine l of
        None \<Rightarrow> []
      | Some (t, k, v) \<Rightarrow>
          map (\<lambda>r. the (applyRule r k v (Suc i) t))
            (filter (\<lambda>r. enabled r \<and> ruleMatches r k v t) rules))"
  by (simp add: scanLine_def foldl_scanRule split: option.splits)

lemma scanLine_eval:
  "parseLine l = Some (t, k, v) \<Longrightarrow>
     scanLine rules [] (l, i) =
       map (\<lambda>r. the (applyRule r k v (Suc i) t)) (filter (\<lambda>r. enabled r \<and> ruleMatches r k v t) rules)"
  by (simp add: scanLine_Nil)

lemma scanLine_append: "scanLine rules fs li = fs @ scanLine rules [] li"
  by (simp add: scanLine_def foldl_scanRule split: option.splits)

lemma foldl_scanLine:
  "foldl (scanLine rules) fs xs = fs @ concat (map (scanLine rules []) xs)"
proof (induction xs arbitrary: fs)
  case Nil
  show ?case by simp
next
  case (Cons x xs)
  have "foldl (scanLine rules) fs (x # xs) = foldl (scanLine rules) (scanLine rules fs x) xs"
    by simp
  also have "\<dots> = scanLine rules fs x @ concat (map (scanLine rules []) xs)"
    by (rule Cons.IH)
  also have "\<dots> = fs @ scanLine rules [] x @ concat (map (scanLine rules []) xs)"
    using scanLine_append [of rules fs x] by simp
  finally show ?case by simp
qed

lemma findings_scanContent:
  "findings (scanContent rules now content fp) =
     concat (map (scanLine rules []) (zip (split 10 content) [0..<length (split 10 content)]))"
  by (simp add: scanContent_def createScanResult_def Let_def foldl_scanLine)

lemma applyRule_line: "applyRule r k v n t = Some f \<Longrightarrow> line f = n"
  by (auto simp: applyRule_def split: if_splits)

lemma scanLine_line: "f \<in> set (scanLine rules [] (l, i)) \<Longrightarrow> line f = Suc i"
  by (auto simp: scanLine_Nil applyRule_def split: option.splits)

lemma parseLine_trim: "parseLine l = Some (t, k, v) \<Longrightarrow> t = trim l"
  by (auto simp: parseLine_def Let_def split: if_splits option.splits)

lemma applyRule_fields:
  assumes "applyRule r k v n t = Some f"
  shows "key f = k" "val f = v" "fseverity f = severity r" "fsuggestion f = suggestion r"
    "ruleId f = rid r" "quickFix f = Some (generateQuickFix r k v t)" "ruleMatches r k v t"
  using assms by (auto simp: applyRule_def split: if_splits)

lemma finding_origin:
  assumes "f \<in> set (findings (scanContent rules now content fp))"
  shows "\<exists>i r k v. i < length (split 10 content) \<and> line f = Suc i
           \<and> parseLine (split 10 content ! i) = Some (trim (split 10 content ! i), k, v)
           \<and> r \<in> set rules \<and> enabled r
           \<and> applyRule r k v (Suc i) (trim (split 10 content ! i)) = Some f"
proof -
  from assms obtain l i where li: "(l, i) \<in> set (zip (split 10 content) [0..<length (split 10 content)])"
    and f: "f \<in> set (scanLine rules [] (l, i))"
    by (auto simp: findings_scanContent)
  from li have i: "i < length (split 10 content)" and l: "l = split 10 content ! i"
    by (auto simp: set_zip)
  from f obtain t k v where p: "parseLine l = Some (t, k, v)"
    by (cases "parseLine l") (auto simp: scanLine_Nil)
  with f obtain r where r: "r \<in> set rules" "enabled r"
    and a: "applyRule r k v (Suc i) t = Some f"
    by (auto simp: scanLine_Nil applyRule_def)
  from p have "t = trim l" by (rule parseLine_trim)
  with i l p r a applyRule_line [OF a] show ?thesis by blast
qed

lemma map_filter_rules:
  "map (\<lambda>r. the (applyRule r k v n t)) (filter (\<lambda>r. enabled r \<and> ruleMatches r k v t) rules)
     = List.map_filter (\<lambda>r. if enabled r then applyRule r k v n t else None) rules"
  by (induction rules) (auto simp: map_filter_simps applyRule_def)

lemma generateQuickFix_cases:
  "generateQuickFix rule k v fullLine =
     (case severity rule of
        CRITICAL \<Rightarrow>
          \<lparr>fixType = comment,
           replacement = str ''# '' @ fullLine @ str '' # SECURITY: '' @ suggestion rule\<rparr>
      | WARNING \<Rightarrow> \<lparr>fixType = mask, replacement = k @ str ''=***MASKED***''\<rparr>
      | INFO \<Rightarrow>
          \<lparr>fixType = comment,
           replacement = str ''# '' @ fullLine @ str '' # INFO: '' @ suggestion rule\<rparr>)"
  by (simp add: generateQuickFix_def split: Severity.splits)

lemma length_split: "length (split d s) = count_list s d + 1"
  by (induction s) (auto split: list.splits)

lemma severity_counts:
  "length (filter (\<lambda>f. fseverity f = CRITICAL) fs) + length (filter (\<lambda>f. fseverity f = WARNING) fs)
     + length (filter (\<lambda>f. fseverity f = INFO) fs) = length fs"
proof (induction fs)
  case Nil
  show ?case by simp
next
  case (Cons f fs)
  then show ?case by (cases "fseverity f") simp_all
qed

lemma block_lines:
  "f \<in> set (concat (map (scanLine rules []) (zip ls [b..<b + length ls]))) \<Longrightarrow> b < line f"
proof -
  assume "f \<in> set (concat (map (scanLine rules []) (zip ls [b..<b + length ls])))"
  then obtain l j where "(l, j) \<in> set (zip ls [b..<b + length ls])"
    and f: "f \<in> set (scanLine rules [] (l, j))"
    by auto
  then have "b \<le> j" by (auto simp: set_zip)
  with scanLine_line [OF f] show ?thesis by simp
qed

lemma sorted_const: "\<forall>x\<in>set xs. g x = (c::nat) \<Longrightarrow> sorted (map g xs)"
  by (induction xs) auto

lemma sorted_blocks:
  "sorted (map line (concat (map (scanLine rules []) (zip ls [a..<a + length ls]))))"
proof (induction ls arbitrary: a)
  case Nil
  show ?case by simp
next
  case (Cons l ls)
  define rest where "rest = concat (map (scanLine rules []) (zip ls [Suc a..<Suc a + length ls]))"
  have split: "concat (map (scanLine rules []) (zip (l # ls) [a..<a + length (l # ls)]))
                 = scanLine rules [] (l, a) @ rest"
    by (simp add: rest_def upt_conv_Cons del: upt_Suc)
  have blk: "sorted (map line (scanLine rules [] (l, a)))"
    by (rule sorted_const [of _ _ "Suc a"]) (auto dest: scanLine_line)
  have rest: "\<forall>y\<in>set rest. Suc a < line y"
    unfolding rest_def using block_lines [of _ rules ls "Suc a"] by blast
  have cross: "\<forall>x\<in>set (scanLine rules [] (l, a)). \<forall>y\<in>set rest. line x \<le> line y"
  proof (intro ballI)
    fix x y
    assume "x \<in> set (scanLine rules [] (l, a))" and "y \<in> set rest"
    with rest scanLine_line [of x rules l a] show "line x \<le> line y" by auto
  qed
  have "sorted (map line rest)"
    unfolding rest_def by (rule Cons.IH)
  with blk cross show ?case
    unfolding split by (simp add: sorted_append)
qed

lemma filter_blocks:
  "i < length ls \<Longrightarrow>
     filter (\<lambda>f. line f = Suc (a + i)) (concat (map (scanLine rules []) (zip ls [a..<a + length ls])))
       = scanLine rules [] (ls ! i, a + i)"
proof (induction ls arbitrary: a i)
  case Nil
  then show ?case by simp
next
  case (Cons l ls)
  define rest where "rest = concat (map (scanLine rules []) (zip ls [Suc a..<Suc a + length ls]))"
  have split: "concat (map (scanLine rules []) (zip (l # ls) [a..<a + length (l # ls)]))
                 = scanLine rules [] (l, a) @ rest"
    by (simp add: rest_def upt_conv_Cons del: upt_Suc)
  have rest: "\<forall>y\<in>set rest. Suc a < line y"
    unfolding rest_def using block_lines [of _ rules ls "Suc a"] by blast
  have blk: "\<forall>x\<in>set (scanLine rules [] (l, a)). line x = Suc a"
    by (auto dest: scanLine_line)
  show ?case
  proof (cases i)
    case 0
    have "filter (\<lambda>f. line f = Suc a) (scanLine rules [] (l, a)) = scanLine rules [] (l, a)"
      using blk by (intro filter_True) auto
    moreover have "filter (\<lambda>f. line f = Suc a) rest = []"
      using rest by (intro filter_False) auto
    ultimately show ?thesis using 0 unfolding split by simp
  next
    case (Suc j)
    have "filter (\<lambda>f. line f = Suc (a + i)) (scanLine rules [] (l, a)) = []"
      using Suc blk by (intro filter_False) auto
    moreover have "filter (\<lambda>f. line f = Suc (Suc a + j)) rest = scanLine rules [] (ls ! j, Suc a + j)"
      unfolding rest_def using Cons.prems Suc by (intro Cons.IH) simp
    ultimately show ?thesis using Suc unfolding split by simp
  qed
qed

subsection \<open>Trimming twice, sums, digits\<close>

lemma dropWhile_rev_keep:
  assumes "xs = [] \<or> \<not> P (hd xs)"
  shows "dropWhile P (rev (dropWhile P (rev xs))) = rev (dropWhile P (rev xs))"
proof (cases "dropWhile P (rev xs) = []")
  case True
  show ?thesis unfolding True by simp
next
  case False
  define ys where "ys = dropWhile P (rev xs)"
  have "rev xs = takeWhile P (rev xs) @ ys" by (simp add: ys_def)
  then have "rev (rev xs) = rev (takeWhile P (rev xs) @ ys)" by (rule arg_cong)
  then have xs: "xs = rev ys @ rev (takeWhile P (rev xs))" by simp
  from False have ne: "rev ys \<noteq> []" by (simp add: ys_def)
  with xs have "hd xs = hd (rev ys)" by (metis hd_append2)
  moreover from xs ne have "xs \<noteq> []" by auto
  ultimately have "\<not> P (hd (rev ys))" using assms by simp
  with ne have "dropWhile P (rev ys) = rev ys" by (cases "rev ys") auto
  then show ?thesis by (simp add: ys_def)
qed

lemma trim_trim: "trim (trim s) = trim s"
proof -
  have hd: "dropWhile isWhiteSpace s = [] \<or> \<not> isWhiteSpace (hd (dropWhile isWhiteSpace s))"
    using hd_dropWhile [of isWhiteSpace s] by blast
  have "dropWhile isWhiteSpace (trim s) = trim s"
    unfolding trim_def
    by (rule dropWhile_rev_keep [of "dropWhile isWhiteSpace s" isWhiteSpace, OF hd])
  then show ?thesis
    by (simp add: trim_def [of "trim s"]) (simp add: trim_def dropWhile_idem)
qed

lemma parseLine_trim_arg: "parseLine (trim l) = parseLine l"
  by (simp add: parseLine_def trim_trim)

lemma foldl_sum: "foldl (\<lambda>sum r. sum + g r) a rs = a + sum_list (map g rs)"
  for g :: "'a \<Rightarrow> nat"
  by (induction rs arbitrary: a) simp_all

lemma showNat_digit: "n < 10 \<Longrightarrow> showNat n = [48 + n]"
  by (simp add: showNat.simps [of n])

lemma str_append: "str a @ str b = str (a @ b)"
  by (simp add: str_def)

section \<open>Facts about the matcher\<close>

text \<open>
  The matcher computes the relation \<open>lang\<close>: its bounded iteration reaches every state
  of the closure, because an iteration either consumes input or changes nothing. Then
  the states a starred class can reach, and from them: what an anchored repetition of a
  class accepts, and that \<open>matchKeyValue\<close> succeeds exactly on the lines that
  \<open>keyValueShape\<close> matches.
\<close>

lemma set_consume: "set (consume P st) = {(False, cs) | c cs. snd st = c # cs \<and> P c}"
  by (cases "(P, st)" rule: consume.cases) auto

lemma lang_shrinks_all:
  "\<forall>st st'. (st, st') \<in> lang ic r \<longrightarrow> st' = st \<or> length (snd st') < length (snd st)"
proof (induction r)
  case (Seq r1 r2)
  show ?case
  proof (intro allI impI)
    fix st st'
    assume "(st, st') \<in> lang ic (Seq r1 r2)"
    then obtain t where t: "(st, t) \<in> lang ic r1" "(t, st') \<in> lang ic r2" by auto
    from Seq.IH(1) t(1) have "t = st \<or> length (snd t) < length (snd st)" by blast
    moreover from Seq.IH(2) t(2) have "st' = t \<or> length (snd st') < length (snd t)" by blast
    ultimately show "st' = st \<or> length (snd st') < length (snd st)" by auto
  qed
next
  case (Alt r1 r2)
  show ?case
  proof (intro allI impI)
    fix st st'
    assume "(st, st') \<in> lang ic (Alt r1 r2)"
    then have "(st, st') \<in> lang ic r1 \<or> (st, st') \<in> lang ic r2" by simp
    with Alt.IH show "st' = st \<or> length (snd st') < length (snd st)" by blast
  qed
next
  case (Star r)
  show ?case
  proof (intro allI impI)
    fix st st'
    assume "(st, st') \<in> lang ic (Star r)"
    then have "(st, st') \<in> (lang ic r)\<^sup>*" by simp
    then show "st' = st \<or> length (snd st') < length (snd st)"
    proof (induction rule: rtrancl_induct)
      case base
      show ?case by simp
    next
      case (step y z)
      from Star.IH step.hyps(2) have "z = y \<or> length (snd z) < length (snd y)" by blast
      with step.IH show ?case by auto
    qed
  qed
qed auto

lemma lang_shrinks:
  "(st, st') \<in> lang ic r \<Longrightarrow> st' = st \<or> length (snd st') < length (snd st)"
  using lang_shrinks_all by blast

lemma iterate_sound:
  assumes f: "\<And>st. set (f st) = {st'. (st, st') \<in> L}"
  shows "st' \<in> set (iterate n f st) \<Longrightarrow> (st, st') \<in> L\<^sup>*"
proof (induction n arbitrary: st)
  case 0
  then show ?case by simp
next
  case (Suc n)
  then consider "st' = st" | t where "t \<in> set (f st)" "st' \<in> set (iterate n f t)"
    by auto
  then show ?case
  proof cases
    case 1
    then show ?thesis by simp
  next
    case 2
    from 2(1) have "(st, t) \<in> L" by (simp add: f)
    from this Suc.IH [OF 2(2)] show ?thesis by (rule converse_rtrancl_into_rtrancl)
  qed
qed

lemma iterate_head: "st \<in> set (iterate n f st)"
  by (cases n) simp_all

lemma iterate_complete:
  assumes f: "\<And>st. set (f st) = {st'. (st, st') \<in> L}"
    and shrink: "\<And>st st'. (st, st') \<in> L \<Longrightarrow> st' = st \<or> length (snd st') < length (snd st)"
  shows "(st, st') \<in> L\<^sup>* \<Longrightarrow> length (snd st) \<le> n \<Longrightarrow> st' \<in> set (iterate n f st)"
proof (induction arbitrary: n rule: converse_rtrancl_induct)
  case base
  show ?case by (rule iterate_head)
next
  case (step st t)
  from shrink [OF step.hyps(1)] show ?case
  proof
    assume eq: "t = st"
    with step.prems have "length (snd t) \<le> n" by simp
    from step.IH [OF this] eq show ?thesis by simp
  next
    assume lt: "length (snd t) < length (snd st)"
    with step.prems obtain m where n: "n = Suc m" and m: "length (snd t) \<le> m"
      by (cases n) auto
    from step.hyps(1) have "t \<in> set (f st)" by (simp add: f)
    with lt have "t \<in> set (filter (\<lambda>u. length (snd u) < length (snd st)) (f st))"
      by simp
    moreover have "st' \<in> set (iterate m f t)" by (rule step.IH [OF m])
    ultimately have "\<exists>u\<in>set (filter (\<lambda>u. length (snd u) < length (snd st)) (f st)).
        st' \<in> set (iterate m f u)"
      by (rule bexI [rotated])
    then show ?thesis
      unfolding n by simp
  qed
qed

theorem matchRe_lang: "set (matchRe ic r st) = {st'. (st, st') \<in> lang ic r}"
proof (induction r arbitrary: st)
  case (Star r)
  show ?case
  proof (intro set_eqI iffI)
    fix x assume "x \<in> set (matchRe ic (Star r) st)"
    then show "x \<in> {st'. (st, st') \<in> lang ic (Star r)}"
      using iterate_sound [of "matchRe ic r" "lang ic r" x "length (snd st)" st, OF Star.IH]
      by simp
  next
    fix x assume "x \<in> {st'. (st, st') \<in> lang ic (Star r)}"
    then show "x \<in> set (matchRe ic (Star r) st)"
      using iterate_complete [of "matchRe ic r" "lang ic r" st x "length (snd st)",
          OF Star.IH lang_shrinks]
      by simp
  qed
next
  case (Seq r1 r2)
  then show ?case by (auto simp: relcomp_unfold)
next
  case (NegLookahead r)
  have "(matchRe ic r st = []) = (\<forall>st'. (st, st') \<notin> lang ic r)"
    using NegLookahead.IH [of st] by (auto simp: set_empty [symmetric] simp del: set_empty)
  then show ?case by auto
next
  case (Alt r1 r2)
  then show ?case by auto
next
  case (Lit a)
  show ?case by (cases st) (auto simp: set_consume)
next
  case Dot
  show ?case by (cases st) (auto simp: set_consume)
next
  case (Class neg rs)
  show ?case by (cases st) (auto simp: set_consume)
next
  case Bol
  show ?case by (cases st) auto
next
  case Eol
  show ?case by (cases st) auto
next
  case Empty
  show ?case by simp
qed

lemma testFrom_iff:
  "testFrom ic r (b, s)
     = (\<exists>i\<le>length s. matchRe ic r (if i = 0 then b else False, drop i s) \<noteq> [])"
proof (induction s arbitrary: b)
  case Nil
  show ?case by simp
next
  case (Cons c cs)
  have "testFrom ic r (b, c # cs)
          = (matchRe ic r (b, c # cs) \<noteq> []
             \<or> (\<exists>i\<le>length cs. matchRe ic r (False, drop i cs) \<noteq> []))"
    using Cons.IH [of False] by (simp del: matchRe.simps)
  also have "\<dots> = (\<exists>i\<le>length (c # cs).
      matchRe ic r (if i = 0 then b else False, drop i (c # cs)) \<noteq> [])"
    (is "?lhs = ?rhs")
  proof
    assume ?lhs
    then consider "matchRe ic r (b, c # cs) \<noteq> []"
      | i where "i \<le> length cs" "matchRe ic r (False, drop i cs) \<noteq> []" by blast
    then show ?rhs
    proof cases
      case 1
      then have "0 \<le> length (c # cs)
          \<and> matchRe ic r (if (0::nat) = 0 then b else False, drop 0 (c # cs)) \<noteq> []"
        by simp
      then show ?thesis by blast
    next
      case 2
      then have "Suc i \<le> length (c # cs)
          \<and> matchRe ic r (if Suc i = 0 then b else False, drop (Suc i) (c # cs)) \<noteq> []"
        by simp
      then show ?thesis by blast
    qed
  next
    assume ?rhs
    then obtain i where i: "i \<le> length (c # cs)"
      "matchRe ic r (if i = 0 then b else False, drop i (c # cs)) \<noteq> []" by blast
    show ?lhs
    proof (cases i)
      case 0
      with i show ?thesis by simp
    next
      case (Suc j)
      with i have "j \<le> length cs \<and> matchRe ic r (False, drop j cs) \<noteq> []" by simp
      then show ?thesis by blast
    qed
  qed
  finally show ?case .
qed

theorem test_lang:
  "test p s = (\<exists>i\<le>length s. \<exists>st'. ((i = 0, drop i s), st') \<in> lang (ignoreCase p) (source p))"
proof -
  have ne: "(matchRe ic r st \<noteq> []) = (\<exists>st'. (st, st') \<in> lang ic r)" for ic r st
    using matchRe_lang [of ic r st] by (auto simp: set_empty [symmetric] simp del: set_empty)
  have "(if i = 0 then True else False, drop i s) = (i = 0, drop i s)" for i :: nat
    by simp
  then show ?thesis
    unfolding test_def testFrom_iff ne by simp
qed

subsection \<open>Classes under a star\<close>

lemma shift_drops:
  assumes "P c"
  shows "insert (False, cs) {(False, drop k cs) | k. 0 < k \<and> k \<le> length (takeWhile P cs)}
        = {(False, drop k (c # cs)) | k. 0 < k \<and> k \<le> length (takeWhile P (c # cs))}"
  (is "?A = ?B")
proof (intro set_eqI iffI)
  fix x assume "x \<in> ?A"
  then consider "x = (False, cs)"
    | k where "0 < k" "k \<le> length (takeWhile P cs)" "x = (False, drop k cs)"
    by auto
  then show "x \<in> ?B"
  proof cases
    case 1
    with assms have "0 < Suc 0 \<and> Suc 0 \<le> length (takeWhile P (c # cs))
        \<and> x = (False, drop (Suc 0) (c # cs))" by simp
    then show ?thesis by (intro CollectI exI [of _ "Suc 0"]) simp
  next
    case 2
    with assms have "0 < Suc k \<and> Suc k \<le> length (takeWhile P (c # cs))
        \<and> x = (False, drop (Suc k) (c # cs))" by simp
    then show ?thesis by (intro CollectI exI [of _ "Suc k"]) simp
  qed
next
  fix x assume "x \<in> ?B"
  then obtain k where k: "0 < k" "k \<le> length (takeWhile P (c # cs))" "x = (False, drop k (c # cs))"
    by auto
  then obtain j where j: "k = Suc j" by (cases k) auto
  show "x \<in> ?A"
  proof (cases j)
    case 0
    with k j show ?thesis by simp
  next
    case (Suc i)
    with k j assms have "0 < j \<and> j \<le> length (takeWhile P cs) \<and> x = (False, drop j cs)"
      by simp
    then have "x \<in> {(False, drop k cs) | k. 0 < k \<and> k \<le> length (takeWhile P cs)}"
      by (intro CollectI exI [of _ j]) simp
    then show ?thesis by simp
  qed
qed

lemma iterate_consume:
  "length s \<le> n \<Longrightarrow>
     set (iterate n (consume P) (b, s))
       = insert (b, s) {(False, drop k s) | k. 0 < k \<and> k \<le> length (takeWhile P s)}"
proof (induction s arbitrary: n b)
  case Nil
  then show ?case by (cases n) auto
next
  case (Cons c cs)
  then obtain m where n: "n = Suc m" and m: "length cs \<le> m"
    by (cases n) auto
  show ?case
  proof (cases "P c")
    case False
    then show ?thesis by (simp add: n)
  next
    case True
    have "set (iterate n (consume P) (b, c # cs))
            = insert (b, c # cs) (set (iterate m (consume P) (False, cs)))"
      using True by (simp add: n)
    also have "\<dots> = insert (b, c # cs)
        (insert (False, cs) {(False, drop k cs) | k. 0 < k \<and> k \<le> length (takeWhile P cs)})"
      by (simp add: Cons.IH [OF m])
    also have "\<dots> = insert (b, c # cs)
        {(False, drop k (c # cs)) | k. 0 < k \<and> k \<le> length (takeWhile P (c # cs))}"
      using True by (simp only: shift_drops)
    finally show ?thesis .
  qed
qed

lemma star_consume:
  "set (iterate (length s) (consume P) (b, s))
     = insert (b, s) {(False, drop k s) | k. 0 < k \<and> k \<le> length (takeWhile P s)}"
  by (rule iterate_consume) simp

lemma seq_nonempty:
  "(matchRe ic (Seq r1 r2) st \<noteq> []) = (\<exists>st'\<in>set (matchRe ic r1 st). matchRe ic r2 st' \<noteq> [])"
  by auto

lemma eol_nonempty: "(matchRe ic Eol st \<noteq> []) = (snd st = [])"
  by simp

lemma bol_seq: "matchRe ic (Seq Bol r) (b, s) = (if b then matchRe ic r (b, s) else [])"
  by simp

lemma testFrom_bol_later: "testFrom ic (Seq Bol r) (False, s) = False"
  by (induction s) (simp_all del: matchRe.simps add: bol_seq)

lemma testFrom_bol: "testFrom ic (Seq Bol r) (True, s) = (matchRe ic r (True, s) \<noteq> [])"
  by (cases s) (simp_all del: matchRe.simps add: bol_seq testFrom_bol_later)

lemma drop_all_takeWhile:
  "(\<exists>k. 0 < k \<and> k \<le> length (takeWhile P s) \<and> drop k s = []) = (s \<noteq> [] \<and> (\<forall>c\<in>set s. P c))"
proof
  assume "\<exists>k. 0 < k \<and> k \<le> length (takeWhile P s) \<and> drop k s = []"
  then obtain k where k: "0 < k" "k \<le> length (takeWhile P s)" "drop k s = []" by blast
  have "length (takeWhile P s) \<le> length s" by (rule length_takeWhile_le)
  with k have "length (takeWhile P s) = length s" by simp
  then have "takeWhile P s = s"
    by (metis takeWhile_dropWhile_id append_eq_conv_conj take_all order_refl)
  with k show "s \<noteq> [] \<and> (\<forall>c\<in>set s. P c)"
    by (auto simp: takeWhile_eq_all_conv)
next
  assume a: "s \<noteq> [] \<and> (\<forall>c\<in>set s. P c)"
  then have tw: "takeWhile P s = s" by simp
  have "0 < length s \<and> length s \<le> length (takeWhile P s) \<and> drop (length s) s = []"
    unfolding tw using a by simp
  then show "\<exists>k. 0 < k \<and> k \<le> length (takeWhile P s) \<and> drop k s = []" by blast
qed

lemma star_end:
  assumes "matchRe ic r = consume P"
  shows "(\<exists>st\<in>set (matchRe ic (Star r) (b, s)). snd st = []) = (\<forall>c\<in>set s. P c)"
proof -
  have "(\<exists>st\<in>set (matchRe ic (Star r) (b, s)). snd st = [])
          = (s = [] \<or> (\<exists>k. 0 < k \<and> k \<le> length (takeWhile P s) \<and> drop k s = []))"
    by (auto simp: assms star_consume)
  also have "\<dots> = (\<forall>c\<in>set s. P c)"
    unfolding drop_all_takeWhile by auto
  finally show ?thesis .
qed

lemma atLeast_end:
  assumes "matchRe ic r = consume P"
  shows "(\<exists>st\<in>set (matchRe ic (AtLeast n r) (b, s)). snd st = [])
           = (n \<le> length s \<and> (\<forall>c\<in>set s. P c))"
proof (induction n arbitrary: b s)
  case 0
  show ?case using star_end [OF assms] by simp
next
  case (Suc n)
  show ?case
  proof (cases s)
    case Nil
    then show ?thesis by (simp add: assms)
  next
    case (Cons c cs)
    show ?thesis
    proof (cases "P c")
      case True
      with Cons Suc.IH [of False cs] show ?thesis by (simp add: assms)
    next
      case False
      with Cons show ?thesis by (simp add: assms)
    qed
  qed
qed

lemma class_consume: "matchRe ic (Class neg rs) = consume (\<lambda>c. classHas ic rs c \<noteq> neg)"
  by (rule ext) simp

lemma dot_consume: "matchRe ic Dot = consume (\<lambda>c. \<not> isLineTerminator c)"
  by (rule ext) simp

lemma anchored_atLeast:
  "test \<lparr>source = Seq Bol (Seq (AtLeast n (Class neg rs)) Eol), ignoreCase = ic\<rparr> s
     = (n \<le> length s \<and> (\<forall>c\<in>set s. classHas ic rs c \<noteq> neg))"
proof -
  have "test \<lparr>source = Seq Bol (Seq (AtLeast n (Class neg rs)) Eol), ignoreCase = ic\<rparr> s
          = (matchRe ic (Seq (AtLeast n (Class neg rs)) Eol) (True, s) \<noteq> [])"
    by (simp add: test_def testFrom_bol del: matchRe.simps)
  also have "\<dots> = (\<exists>st\<in>set (matchRe ic (AtLeast n (Class neg rs)) (True, s)). snd st = [])"
    unfolding seq_nonempty eol_nonempty ..
  also have "\<dots> = (n \<le> length s \<and> (\<forall>c\<in>set s. classHas ic rs c \<noteq> neg))"
    by (rule atLeast_end [OF class_consume])
  finally show ?thesis .
qed

lemma api_key_threshold:
  "test (the (valuePattern api_key_exposed)) v
     = (20 \<le> length v
        \<and> (\<forall>c\<in>set v. 97 \<le> c \<and> c \<le> 122 \<or> 65 \<le> c \<and> c \<le> 90 \<or> 48 \<le> c \<and> c \<le> 57
              \<or> c = 95 \<or> c = 45))"
proof -
  have "test (the (valuePattern api_key_exposed)) v
     = (20 \<le> length v \<and> (\<forall>c\<in>set v. classHas False [(97, 122), (65, 90), (48, 57), (95, 95), (45, 45)] c))"
    by (simp add: api_key_exposed_def anchored_atLeast cu_def)
  moreover have "classHas False [(97, 122), (65, 90), (48, 57), (95, 95), (45, 45)] c
     = (97 \<le> c \<and> c \<le> 122 \<or> 65 \<le> c \<and> c \<le> 90 \<or> 48 \<le> c \<and> c \<le> 57 \<or> c = 95 \<or> c = 45)" for c
    by (simp add: classHas_def inRanges_def) arith
  ultimately show ?thesis by simp
qed

lemma drop_hits_end:
  assumes "j \<le> length (takeWhile P xs)" and "drop j xs = y # ys" and "\<not> P y"
  shows "j = length (takeWhile P xs)"
proof (rule ccontr)
  assume "j \<noteq> length (takeWhile P xs)"
  with assms(1) have lt: "j < length (takeWhile P xs)" by simp
  then have "takeWhile P xs ! j \<in> set (takeWhile P xs)" by simp
  then have "P (takeWhile P xs ! j)" by (rule set_takeWhileD [THEN conjunct2])
  moreover have "takeWhile P xs ! j = xs ! j" using lt by (rule takeWhile_nth)
  moreover have "j < length xs" using lt length_takeWhile_le [of P xs] by simp
  then have "xs ! j = hd (drop j xs)" by (simp add: hd_drop_conv_nth)
  ultimately show False using assms(2,3) by simp
qed

lemma plus_consume:
  assumes "matchRe ic r = consume P"
  shows "set (matchRe ic (Plus r) (b, s))
           = {(False, drop k s) | k. 0 < k \<and> k \<le> length (takeWhile P s)}"
proof (cases s)
  case Nil
  then show ?thesis by (simp add: Plus_def assms)
next
  case (Cons c cs)
  show ?thesis
  proof (cases "P c")
    case False
    with Cons show ?thesis by (simp add: Plus_def assms)
  next
    case True
    have "set (matchRe ic (Plus r) (b, s)) = set (iterate (length cs) (consume P) (False, cs))"
      using True Cons by (simp add: Plus_def assms)
    also have "\<dots> = insert (False, cs)
        {(False, drop k cs) | k. 0 < k \<and> k \<le> length (takeWhile P cs)}"
      by (rule star_consume)
    also have "\<dots> = {(False, drop k (c # cs)) | k. 0 < k \<and> k \<le> length (takeWhile P (c # cs))}"
      using True by (rule shift_drops)
    finally show ?thesis using Cons by simp
  qed
qed

lemma lit_seq_nonempty:
  "(matchRe False (Seq (Lit a) r) (b, t) \<noteq> [])
     = (t \<noteq> [] \<and> hd t = a \<and> matchRe False r (False, tl t) \<noteq> [])"
  by (cases t) (simp_all add: canonicalize_def)

lemma star_dot_eol:
  "(matchRe ic (Seq (Star Dot) Eol) (b, t) \<noteq> []) = (\<forall>c\<in>set t. \<not> isLineTerminator c)"
  unfolding seq_nonempty eol_nonempty by (rule star_end [OF dot_consume])

lemma matchKeyValue_shape: "(matchKeyValue l \<noteq> None) = test keyValueShape l"
proof -
  let ?P = "\<lambda>c. c \<noteq> (61::nat)"
  let ?L = "length (takeWhile ?P l)"
  let ?rest = "Seq (Lit 61) (Seq (Star Dot) Eol)"
  have cls: "matchRe False (Class True [(61, 61)]) = consume ?P"
    unfolding class_consume by (rule arg_cong [of _ _ consume]) (auto simp: classHas_def inRanges_def)
  have "test keyValueShape l
          = (matchRe False (Seq (Plus (Class True [(61, 61)])) ?rest) (True, l) \<noteq> [])"
    by (simp add: keyValueShape_def test_def testFrom_bol del: matchRe.simps)
  also have "\<dots> = (\<exists>k. 0 < k \<and> k \<le> ?L \<and> matchRe False ?rest (False, drop k l) \<noteq> [])"
    unfolding seq_nonempty [of _ "Plus _"] plus_consume [OF cls] by blast
  also have "\<dots> = (\<exists>k. 0 < k \<and> k \<le> ?L \<and> drop k l \<noteq> [] \<and> hd (drop k l) = 61
                        \<and> (\<forall>c\<in>set (tl (drop k l)). \<not> isLineTerminator c))"
    unfolding lit_seq_nonempty star_dot_eol ..
  also have "\<dots> = (takeWhile ?P l \<noteq> [] \<and> dropWhile ?P l \<noteq> []
                        \<and> (\<forall>c\<in>set (tl (dropWhile ?P l)). \<not> isLineTerminator c))"
    (is "?lhs = ?rhs")
  proof
    assume ?lhs
    then obtain k where k: "0 < k" "k \<le> ?L" "drop k l \<noteq> []" "hd (drop k l) = 61"
      "\<forall>c\<in>set (tl (drop k l)). \<not> isLineTerminator c" by blast
    from k(3,4) obtain ys where "drop k l = 61 # ys" by (cases "drop k l") auto
    with k(2) have "k = ?L" by (intro drop_hits_end [of k ?P l 61 ys]) auto
    with k show ?rhs by (simp add: dropWhile_eq_drop)
  next
    assume r: ?rhs
    then have "hd (dropWhile ?P l) = 61" using hd_dropWhile [of ?P l] by simp
    with r have "0 < ?L \<and> ?L \<le> ?L \<and> drop ?L l \<noteq> [] \<and> hd (drop ?L l) = 61
        \<and> (\<forall>c\<in>set (tl (drop ?L l)). \<not> isLineTerminator c)"
      by (simp add: dropWhile_eq_drop)
    then show ?lhs by blast
  qed
  also have "\<dots> = (matchKeyValue l \<noteq> None)"
    by (auto simp: matchKeyValue_def Let_def list_ex_iff)
  finally show ?thesis by simp
qed

section \<open>Evaluating the catalog on concrete lines\<close>

lemmas catalog = DEFAULT_RULES_def password_hardcoded_def api_key_exposed_def
  database_url_exposed_def debug_enabled_def private_key_exposed_def weak_password_def
  localhost_url_def

lemmas rx = str_def cu_def test_def Plus_def anything_def space_def containing_def
  onValues_def weakValues_def canonicalize_def inRanges_def classHas_def
  isLineTerminator_def ruleMatches_def

lemmas px = parseLine_def trim_def startsWith_def matchKeyValue_def isWhiteSpace_def
  isLineTerminator_def str_def

lemma AtLeast_numeral: "AtLeast (numeral n) r = Seq r (AtLeast (pred_numeral n) r)"
  by (simp add: numeral_eq_Suc)

lemma catalog_enabled:
  "enabled password_hardcoded" "enabled api_key_exposed" "enabled database_url_exposed"
  "enabled debug_enabled" "enabled private_key_exposed" "enabled weak_password"
  "enabled localhost_url"
  by (simp_all add: catalog)

lemma catalog_severity:
  "severity password_hardcoded = CRITICAL" "severity api_key_exposed = CRITICAL"
  "severity database_url_exposed = CRITICAL" "severity debug_enabled = WARNING"
  "severity private_key_exposed = CRITICAL" "severity weak_password = WARNING"
  "severity localhost_url = INFO"
  by (simp_all add: catalog)

lemma catalog_rid:
  "rid password_hardcoded = str ''password-hardcoded''"
  "rid api_key_exposed = str ''api-key-exposed''"
  "rid database_url_exposed = str ''database-url-exposed''"
  "rid debug_enabled = str ''debug-enabled''"
  "rid private_key_exposed = str ''private-key-exposed''"
  "rid weak_password = str ''weak-password''"
  "rid localhost_url = str ''localhost-url''"
  by (simp_all add: catalog)

lemma catalogStore_rid:
  "rid (catalogStore 0) = str ''password-hardcoded''"
  "rid (catalogStore (Suc 0)) = str ''api-key-exposed''"
  "rid (catalogStore 2) = str ''database-url-exposed''"
  "rid (catalogStore 3) = str ''debug-enabled''"
  "rid (catalogStore 4) = str ''private-key-exposed''"
  "rid (catalogStore 5) = str ''weak-password''"
  "rid (catalogStore 6) = str ''localhost-url''"
  by (simp_all add: catalogStore_def catalog_rid)

subsection \<open>The two-line scenario\<close>

lemma split_scenario:
  "split 10 (str ''DB_PASSWORD=123456\<newline>API_KEY=secret123'')
     = [str ''DB_PASSWORD=123456'', str ''API_KEY=secret123'']"
  by (simp add: str_def)

lemma parse_password_line:
  "parseLine (str ''DB_PASSWORD=123456'')
     = Some (str ''DB_PASSWORD=123456'', str ''DB_PASSWORD'', str ''123456'')"
  by (simp add: px)

lemma parse_api_line:
  "parseLine (str ''API_KEY=secret123'')
     = Some (str ''API_KEY=secret123'', str ''API_KEY'', str ''secret123'')"
  by (simp add: px)

lemma matches_password_line:
  "ruleMatches password_hardcoded (str ''DB_PASSWORD'') (str ''123456'') (str ''DB_PASSWORD=123456'')"
  "\<not> ruleMatches api_key_exposed (str ''DB_PASSWORD'') (str ''123456'') (str ''DB_PASSWORD=123456'')"
  "\<not> ruleMatches database_url_exposed (str ''DB_PASSWORD'') (str ''123456'') (str ''DB_PASSWORD=123456'')"
  "\<not> ruleMatches debug_enabled (str ''DB_PASSWORD'') (str ''123456'') (str ''DB_PASSWORD=123456'')"
  "\<not> ruleMatches private_key_exposed (str ''DB_PASSWORD'') (str ''123456'') (str ''DB_PASSWORD=123456'')"
  "ruleMatches weak_password (str ''DB_PASSWORD'') (str ''123456'') (str ''DB_PASSWORD=123456'')"
  "\<not> ruleMatches localhost_url (str ''DB_PASSWORD'') (str ''123456'') (str ''DB_PASSWORD=123456'')"
  by (simp_all add: rx catalog AtLeast_numeral)

lemma matches_api_line:
  "\<not> ruleMatches password_hardcoded (str ''API_KEY'') (str ''secret123'') (str ''API_KEY=secret123'')"
  "\<not> ruleMatches api_key_exposed (str ''API_KEY'') (str ''secret123'') (str ''API_KEY=secret123'')"
  "\<not> ruleMatches database_url_exposed (str ''API_KEY'') (str ''secret123'') (str ''API_KEY=secret123'')"
  "\<not> ruleMatches debug_enabled (str ''API_KEY'') (str ''secret123'') (str ''API_KEY=secret123'')"
  "\<not> ruleMatches private_key_exposed (str ''API_KEY'') (str ''secret123'') (str ''API_KEY=secret123'')"
  "\<not> ruleMatches weak_password (str ''API_KEY'') (str ''secret123'') (str ''API_KEY=secret123'')"
  "\<not> ruleMatches localhost_url (str ''API_KEY'') (str ''secret123'') (str ''API_KEY=secret123'')"
  by (simp_all add: rx catalog AtLeast_numeral)

lemma scenario_findings:
  "findings (scanContent DEFAULT_RULES now (str ''DB_PASSWORD=123456\<newline>API_KEY=secret123'') fp)
     = [the (applyRule password_hardcoded (str ''DB_PASSWORD'') (str ''123456'') 1 (str ''DB_PASSWORD=123456'')),
        the (applyRule weak_password (str ''DB_PASSWORD'') (str ''123456'') 1 (str ''DB_PASSWORD=123456''))]"
  by (simp add: findings_scanContent split_scenario scanLine_eval [OF parse_password_line]
      scanLine_eval [OF parse_api_line] matches_password_line matches_api_line catalog_enabled
      DEFAULT_RULES_def)

lemma finding_password:
  "the (applyRule password_hardcoded (str ''DB_PASSWORD'') (str ''123456'') n (str ''DB_PASSWORD=123456''))
    = \<lparr>line = n, column = 1, key = str ''DB_PASSWORD'', val = str ''123456'',
        fseverity = CRITICAL, ruleId = str ''password-hardcoded'',
        message = str ''Hardcoded Password: Detects hardcoded passwords in environment variables'',
        fsuggestion = str ''Remove hardcoded password and use secure environment variable injection'',
        quickFix = Some \<lparr>fixType = comment, replacement =
          str ''# DB_PASSWORD=123456 # SECURITY: Remove hardcoded password and use secure environment variable injection''\<rparr>\<rparr>"
  by (simp add: applyRule_def matches_password_line generateQuickFix_def)
     (simp add: password_hardcoded_def str_def)

lemma finding_weak:
  "the (applyRule weak_password (str ''DB_PASSWORD'') (str ''123456'') n (str ''DB_PASSWORD=123456''))
    = \<lparr>line = n, column = 1, key = str ''DB_PASSWORD'', val = str ''123456'',
        fseverity = WARNING, ruleId = str ''weak-password'',
        message = str ''Weak Password: Detects commonly used weak passwords'',
        fsuggestion = str ''Use a strong, unique password'',
        quickFix = Some \<lparr>fixType = mask, replacement = str ''DB_PASSWORD=***MASKED***''\<rparr>\<rparr>"
  by (simp add: applyRule_def matches_password_line generateQuickFix_def)
     (simp add: weak_password_def str_def)

lemma scenario_result:
  "scanContent DEFAULT_RULES now (str ''DB_PASSWORD=123456\<newline>API_KEY=secret123'') fp =
     \<lparr>filePath = fp,
      findings =
        [the (applyRule password_hardcoded (str ''DB_PASSWORD'') (str ''123456'') 1 (str ''DB_PASSWORD=123456'')),
         the (applyRule weak_password (str ''DB_PASSWORD'') (str ''123456'') 1 (str ''DB_PASSWORD=123456''))],
      scannedAt = now, totalLines = 2, criticalCount = 1, warningCount = 1, infoCount = 0\<rparr>"
proof -
  have "scanContent DEFAULT_RULES now (str ''DB_PASSWORD=123456\<newline>API_KEY=secret123'') fp =
    createScanResult now fp
      (findings (scanContent DEFAULT_RULES now (str ''DB_PASSWORD=123456\<newline>API_KEY=secret123'') fp))
      (length (split 10 (str ''DB_PASSWORD=123456\<newline>API_KEY=secret123'')))"
    by (simp add: scanContent_def createScanResult_def Let_def)
  then show ?thesis
    unfolding scenario_findings split_scenario
    by (simp add: createScanResult_def finding_password finding_weak)
qed

lemma trim_password_line: "trim (str ''DB_PASSWORD=123456'') = str ''DB_PASSWORD=123456''"
  by (simp add: trim_def isWhiteSpace_def str_def)

subsection \<open>The content of the scanner's unit test\<close>

lemma split_unit_test:
  "split 10 (str ''DB_HOST=localhost\<newline>        DB_PASSWORD=123456\<newline>        API_KEY=secret123'')
     = [str ''DB_HOST=localhost'', str ''        DB_PASSWORD=123456'',
        str ''        API_KEY=secret123'']"
  by (simp add: str_def)

lemma parse_host_line:
  "parseLine (str ''DB_HOST=localhost'')
     = Some (str ''DB_HOST=localhost'', str ''DB_HOST'', str ''localhost'')"
  by (simp add: px)

lemma parse_indented_password_line:
  "parseLine (str ''        DB_PASSWORD=123456'')
     = Some (str ''DB_PASSWORD=123456'', str ''DB_PASSWORD'', str ''123456'')"
  by (simp add: px)

lemma parse_indented_api_line:
  "parseLine (str ''        API_KEY=secret123'')
     = Some (str ''API_KEY=secret123'', str ''API_KEY'', str ''secret123'')"
  by (simp add: px)

lemma matches_host_line:
  "\<not> ruleMatches password_hardcoded (str ''DB_HOST'') (str ''localhost'') (str ''DB_HOST=localhost'')"
  "\<not> ruleMatches api_key_exposed (str ''DB_HOST'') (str ''localhost'') (str ''DB_HOST=localhost'')"
  "\<not> ruleMatches database_url_exposed (str ''DB_HOST'') (str ''localhost'') (str ''DB_HOST=localhost'')"
  "\<not> ruleMatches debug_enabled (str ''DB_HOST'') (str ''localhost'') (str ''DB_HOST=localhost'')"
  "\<not> ruleMatches private_key_exposed (str ''DB_HOST'') (str ''localhost'') (str ''DB_HOST=localhost'')"
  "\<not> ruleMatches weak_password (str ''DB_HOST'') (str ''localhost'') (str ''DB_HOST=localhost'')"
  "\<not> ruleMatches localhost_url (str ''DB_HOST'') (str ''localhost'') (str ''DB_HOST=localhost'')"
  by (simp_all add: rx catalog AtLeast_numeral)

lemma unit_test_findings:
  "findings (scanContent DEFAULT_RULES now
      (str ''DB_HOST=localhost\<newline>        DB_PASSWORD=123456\<newline>        API_KEY=secret123'') fp)
     = [the (applyRule password_hardcoded (str ''DB_PASSWORD'') (str ''123456'') 2 (str ''DB_PASSWORD=123456'')),
        the (applyRule weak_password (str ''DB_PASSWORD'') (str ''123456'') 2 (str ''DB_PASSWORD=123456''))]"
  by (simp add: findings_scanContent split_unit_test scanLine_eval [OF parse_host_line]
      scanLine_eval [OF parse_indented_password_line] scanLine_eval [OF parse_indented_api_line]
      matches_host_line matches_password_line matches_api_line catalog_enabled
      DEFAULT_RULES_def numeral_2_eq_2)

lemma unit_test_result:
  "scanContent DEFAULT_RULES now
      (str ''DB_HOST=localhost\<newline>        DB_PASSWORD=123456\<newline>        API_KEY=secret123'') fp =
     \<lparr>filePath = fp,
      findings =
        [the (applyRule password_hardcoded (str ''DB_PASSWORD'') (str ''123456'') 2 (str ''DB_PASSWORD=123456'')),
         the (applyRule weak_password (str ''DB_PASSWORD'') (str ''123456'') 2 (str ''DB_PASSWORD=123456''))],
      scannedAt = now, totalLines = 3, criticalCount = 1, warningCount = 1, infoCount = 0\<rparr>"
proof -
  have "scanContent DEFAULT_RULES now
      (str ''DB_HOST=localhost\<newline>        DB_PASSWORD=123456\<newline>        API_KEY=secret123'') fp =
    createScanResult now fp
      (findings (scanContent DEFAULT_RULES now
         (str ''DB_HOST=localhost\<newline>        DB_PASSWORD=123456\<newline>        API_KEY=secret123'') fp))
      (length (split 10
         (str ''DB_HOST=localhost\<newline>        DB_PASSWORD=123456\<newline>        API_KEY=secret123'')))"
    by (simp add: scanContent_def createScanResult_def Let_def)
  then show ?thesis
    unfolding unit_test_findings split_unit_test
    by (simp add: createScanResult_def finding_password finding_weak)
qed

subsection \<open>Indented lines\<close>

lemma parse_debug_line:
  "parseLine (str ''  DEBUG=true'') = Some (str ''DEBUG=true'', str ''DEBUG'', str ''true'')"
  by (simp add: px)

lemma matches_debug_line:
  "\<not> ruleMatches password_hardcoded (str ''DEBUG'') (str ''true'') (str ''DEBUG=true'')"
  "\<not> ruleMatches api_key_exposed (str ''DEBUG'') (str ''true'') (str ''DEBUG=true'')"
  "\<not> ruleMatches database_url_exposed (str ''DEBUG'') (str ''true'') (str ''DEBUG=true'')"
  "ruleMatches debug_enabled (str ''DEBUG'') (str ''true'') (str ''DEBUG=true'')"
  "\<not> ruleMatches private_key_exposed (str ''DEBUG'') (str ''true'') (str ''DEBUG=true'')"
  "\<not> ruleMatches weak_password (str ''DEBUG'') (str ''true'') (str ''DEBUG=true'')"
  "\<not> ruleMatches localhost_url (str ''DEBUG'') (str ''true'') (str ''DEBUG=true'')"
  by (simp_all add: rx catalog AtLeast_numeral)

lemma debug_findings:
  "findings (scanContent DEFAULT_RULES now (str ''  DEBUG=true'') fp)
     = [the (applyRule debug_enabled (str ''DEBUG'') (str ''true'') 1 (str ''DEBUG=true''))]"
proof -
  have "split 10 (str ''  DEBUG=true'') = [str ''  DEBUG=true'']" by (simp add: str_def)
  then show ?thesis
    by (simp add: findings_scanContent scanLine_eval [OF parse_debug_line] matches_debug_line
        catalog_enabled DEFAULT_RULES_def)
qed

lemma finding_debug:
  "the (applyRule debug_enabled (str ''DEBUG'') (str ''true'') n (str ''DEBUG=true''))
    = \<lparr>line = n, column = 1, key = str ''DEBUG'', val = str ''true'',
        fseverity = WARNING, ruleId = str ''debug-enabled'',
        message = str ''Debug Mode Enabled: Debug mode should not be enabled in production'',
        fsuggestion = str ''Set DEBUG=false or remove for production environments'',
        quickFix = Some \<lparr>fixType = mask, replacement = str ''DEBUG=***MASKED***''\<rparr>\<rparr>"
  by (simp add: applyRule_def matches_debug_line generateQuickFix_def)
     (simp add: debug_enabled_def str_def)

lemma raw_debug_line: "\<not> test (the (pattern debug_enabled)) (str ''  DEBUG=true'')"
  by (simp add: rx debug_enabled_def)

lemma parse_padded_line:
  "parseLine (str ''  DB_PASSWORD=hunter2  '')
     = Some (str ''DB_PASSWORD=hunter2'', str ''DB_PASSWORD'', str ''hunter2'')"
  by (simp add: px)

lemma matches_padded_line:
  "ruleMatches password_hardcoded (str ''DB_PASSWORD'') (str ''hunter2'') (str ''DB_PASSWORD=hunter2'')"
  "\<not> ruleMatches api_key_exposed (str ''DB_PASSWORD'') (str ''hunter2'') (str ''DB_PASSWORD=hunter2'')"
  "\<not> ruleMatches database_url_exposed (str ''DB_PASSWORD'') (str ''hunter2'') (str ''DB_PASSWORD=hunter2'')"
  "\<not> ruleMatches debug_enabled (str ''DB_PASSWORD'') (str ''hunter2'') (str ''DB_PASSWORD=hunter2'')"
  "\<not> ruleMatches private_key_exposed (str ''DB_PASSWORD'') (str ''hunter2'') (str ''DB_PASSWORD=hunter2'')"
  "\<not> ruleMatches weak_password (str ''DB_PASSWORD'') (str ''hunter2'') (str ''DB_PASSWORD=hunter2'')"
  "\<not> ruleMatches localhost_url (str ''DB_PASSWORD'') (str ''hunter2'') (str ''DB_PASSWORD=hunter2'')"
  by (simp_all add: rx catalog AtLeast_numeral)

lemma padded_findings:
  "findings (scanContent DEFAULT_RULES now (str ''  DB_PASSWORD=hunter2  '') fp)
     = [the (applyRule password_hardcoded (str ''DB_PASSWORD'') (str ''hunter2'') 1
              (str ''DB_PASSWORD=hunter2''))]"
proof -
  have "split 10 (str ''  DB_PASSWORD=hunter2  '') = [str ''  DB_PASSWORD=hunter2  '']"
    by (simp add: str_def)
  then show ?thesis
    by (simp add: findings_scanContent scanLine_eval [OF parse_padded_line] matches_padded_line
        catalog_enabled DEFAULT_RULES_def)
qed

lemma finding_padded:
  "quickFix (the (applyRule password_hardcoded (str ''DB_PASSWORD'') (str ''hunter2'') n
              (str ''DB_PASSWORD=hunter2'')))
    = Some \<lparr>fixType = comment, replacement =
        str ''# DB_PASSWORD=hunter2 # SECURITY: Remove hardcoded password and use secure environment variable injection''\<rparr>"
  by (simp add: applyRule_def matches_padded_line generateQuickFix_def)
     (simp add: password_hardcoded_def str_def)

section \<open>The matching engine\<close>

text \<open>
  C1. \<open>applyRule\<close> produces a finding exactly when the rule has a line pattern that
  matches the full line, and its key pattern, if any, matches the key, and its value
  pattern, if any, matches the value. In particular a rule whose line pattern does not
  match the line produces no finding, whatever its key and value patterns say.
\<close>

theorem applyRule_finding_iff:
  "(applyRule rule k v n fullLine \<noteq> None) =
     ((\<exists>p. pattern rule = Some p \<and> test p fullLine)
      \<and> (\<forall>p. keyPattern rule = Some p \<longrightarrow> test p k)
      \<and> (\<forall>p. valuePattern rule = Some p \<longrightarrow> test p v))
   \<and> ((\<forall>p. pattern rule = Some p \<longrightarrow> \<not> test p fullLine)
        \<longrightarrow> applyRule rule k v n fullLine = None)"
  by (auto simp: applyRule_def ruleMatches_def Let_def split: option.splits)

theorem applyRule_finding_iff_witness:
  "applyRule debug_enabled (str ''DEBUG'') (str ''true'') 1 (str ''DEBUG=true'') \<noteq> None
   \<and> test (the (keyPattern database_url_exposed)) (str ''URL'')
   \<and> test (the (valuePattern database_url_exposed)) (str ''postgres://u:pw@db/x'')
   \<and> \<not> test (the (pattern database_url_exposed)) (str ''URL=postgres://u:pw@db/x'')
   \<and> applyRule database_url_exposed (str ''URL'') (str ''postgres://u:pw@db/x'') 1
         (str ''URL=postgres://u:pw@db/x'') = None"
proof -
  have d: "pattern debug_enabled \<noteq> None" "keyPattern debug_enabled \<noteq> None"
    "valuePattern debug_enabled \<noteq> None"
    "test (the (pattern debug_enabled)) (str ''DEBUG=true'')"
    "test (the (keyPattern debug_enabled)) (str ''DEBUG'')"
    "test (the (valuePattern debug_enabled)) (str ''true'')"
    by (simp_all add: debug_enabled_def rx)
  have u: "pattern database_url_exposed \<noteq> None"
    "test (the (keyPattern database_url_exposed)) (str ''URL'')"
    "test (the (valuePattern database_url_exposed)) (str ''postgres://u:pw@db/x'')"
    "\<not> test (the (pattern database_url_exposed)) (str ''URL=postgres://u:pw@db/x'')"
    by (simp_all add: database_url_exposed_def rx)
  from d have "applyRule debug_enabled (str ''DEBUG'') (str ''true'') 1 (str ''DEBUG=true'') \<noteq> None"
    using applyRule_finding_iff [of debug_enabled "str ''DEBUG''" "str ''true''" 1 "str ''DEBUG=true''"]
    by force
  moreover from u have "applyRule database_url_exposed (str ''URL'') (str ''postgres://u:pw@db/x'') 1
         (str ''URL=postgres://u:pw@db/x'') = None"
    using applyRule_finding_iff [of database_url_exposed "str ''URL''" "str ''postgres://u:pw@db/x''" 1
      "str ''URL=postgres://u:pw@db/x''"]
    by force
  ultimately show ?thesis using u by simp
qed

section \<open>The two-line scenario\<close>

text \<open>
  C2. The scan of \<open>DB_PASSWORD=123456\<close>, \<open>API_KEY=secret123\<close> returns two findings, both
  on the first line: password-hardcoded (CRITICAL) and weak-password (WARNING), so the
  critical counter is 1 and the warning counter is 1. The API-key rule adds nothing:
  its value pattern rejects \<open>secret123\<close>. The content of the scanner's unit test, the
  same two lines indented after \<open>DB_HOST=localhost\<close>, gives the same two findings and
  the same counters, where that test expects two findings and a critical counter of 2.
\<close>

theorem scenario_code_behaviour:
  "map ruleId (findings (scanContent DEFAULT_RULES 0
      (str ''DB_PASSWORD=123456\<newline>API_KEY=secret123'') (str ''.env'')))
     = [str ''password-hardcoded'', str ''weak-password'']
   \<and> map fseverity (findings (scanContent DEFAULT_RULES 0
      (str ''DB_PASSWORD=123456\<newline>API_KEY=secret123'') (str ''.env'')))
     = [CRITICAL, WARNING]
   \<and> criticalCount (scanContent DEFAULT_RULES 0
      (str ''DB_PASSWORD=123456\<newline>API_KEY=secret123'') (str ''.env'')) = 1
   \<and> warningCount (scanContent DEFAULT_RULES 0
      (str ''DB_PASSWORD=123456\<newline>API_KEY=secret123'') (str ''.env'')) = 1
   \<and> \<not> test (the (valuePattern api_key_exposed)) (str ''secret123'')
   \<and> map ruleId (findings (scanContent DEFAULT_RULES 0
      (str ''DB_HOST=localhost\<newline>        DB_PASSWORD=123456\<newline>        API_KEY=secret123'')
      (str ''.env'')))
     = [str ''password-hardcoded'', str ''weak-password'']
   \<and> criticalCount (scanContent DEFAULT_RULES 0
      (str ''DB_HOST=localhost\<newline>        DB_PASSWORD=123456\<newline>        API_KEY=secret123'')
      (str ''.env'')) = 1
   \<and> warningCount (scanContent DEFAULT_RULES 0
      (str ''DB_HOST=localhost\<newline>        DB_PASSWORD=123456\<newline>        API_KEY=secret123'')
      (str ''.env'')) = 1"
proof -
  have "\<not> test (the (valuePattern api_key_exposed)) (str ''secret123'')"
    unfolding api_key_threshold by (simp add: str_def)
  then show ?thesis
    unfolding scenario_result unit_test_result
    by (simp add: finding_password finding_weak)
qed

section \<open>Line count\<close>

text \<open>
  C3. \<open>totalLines\<close> is the number of pieces of the content split at line feeds, which is
  the number of line feeds plus one, whatever the lines hold; the empty content has one
  line and no finding.
\<close>

theorem totalLines_physical:
  "totalLines (scanContent rules now content fp) = length (split 10 content)
   \<and> length (split 10 content) = count_list content 10 + 1
   \<and> totalLines (scanContent rules now [] fp) = 1
   \<and> findings (scanContent rules now [] fp) = []"
  by (simp add: scanContent_def createScanResult_def Let_def length_split scanLine_def
      parseLine_def trim_def)

theorem totalLines_physical_witness:
  "totalLines (scanContent DEFAULT_RULES 0
     (str ''DB_HOST=localhost\<newline>INVALID_LINE_WITHOUT_EQUALS\<newline>API_KEY=valid_key'') (str ''.env'')) = 3"
  using totalLines_physical [of DEFAULT_RULES 0
     "str ''DB_HOST=localhost\<newline>INVALID_LINE_WITHOUT_EQUALS\<newline>API_KEY=valid_key''" "str ''.env''"]
  by (simp add: str_def)

section \<open>Severity counters\<close>

text \<open>
  C4. In every scan result each severity counter is the number of findings of that
  severity, and the three counters add up to the number of findings.
\<close>

theorem severity_counters:
  "criticalCount (scanContent rules now content fp)
     = length (filter (\<lambda>f. fseverity f = CRITICAL) (findings (scanContent rules now content fp)))
   \<and> warningCount (scanContent rules now content fp)
     = length (filter (\<lambda>f. fseverity f = WARNING) (findings (scanContent rules now content fp)))
   \<and> infoCount (scanContent rules now content fp)
     = length (filter (\<lambda>f. fseverity f = INFO) (findings (scanContent rules now content fp)))
   \<and> criticalCount (scanContent rules now content fp) + warningCount (scanContent rules now content fp)
       + infoCount (scanContent rules now content fp)
     = length (findings (scanContent rules now content fp))"
  by (simp add: scanContent_def createScanResult_def Let_def severity_counts)

theorem severity_counters_witness:
  "criticalCount (scanContent DEFAULT_RULES 0 (str ''DB_PASSWORD=123456\<newline>API_KEY=secret123'') (str ''.env'')) = 1
   \<and> warningCount (scanContent DEFAULT_RULES 0 (str ''DB_PASSWORD=123456\<newline>API_KEY=secret123'') (str ''.env'')) = 1
   \<and> infoCount (scanContent DEFAULT_RULES 0 (str ''DB_PASSWORD=123456\<newline>API_KEY=secret123'') (str ''.env'')) = 0
   \<and> length (findings (scanContent DEFAULT_RULES 0 (str ''DB_PASSWORD=123456\<newline>API_KEY=secret123'') (str ''.env''))) = 2"
  using severity_counters [of DEFAULT_RULES 0 "str ''DB_PASSWORD=123456\<newline>API_KEY=secret123''" "str ''.env''"]
  by (simp add: scenario_findings finding_password finding_weak)

section \<open>The remediation synthesizer\<close>

text \<open>
  C5. The quick fix depends on the rule only through its severity: CRITICAL comments the
  line out with a \<open>SECURITY:\<close> note, WARNING masks the value, INFO comments the line out
  with an \<open>INFO:\<close> note; the type \<open>remove\<close> is never produced. Every finding of a scan
  carries this fix, built from the trimmed text of its line, its key and its suggestion.
  (The \<open>default\<close> branch of the source is the INFO case: the enum has no fourth value.)
\<close>

theorem quickFix_by_severity:
  "generateQuickFix rule k v fullLine =
     (case severity rule of
        CRITICAL \<Rightarrow>
          \<lparr>fixType = comment,
           replacement = str ''# '' @ fullLine @ str '' # SECURITY: '' @ suggestion rule\<rparr>
      | WARNING \<Rightarrow> \<lparr>fixType = mask, replacement = k @ str ''=***MASKED***''\<rparr>
      | INFO \<Rightarrow>
          \<lparr>fixType = comment,
           replacement = str ''# '' @ fullLine @ str '' # INFO: '' @ suggestion rule\<rparr>)
   \<and> fixType (generateQuickFix rule k v fullLine) \<noteq> remove
   \<and> (\<forall>f \<in> set (findings (scanContent rules now content fp)).
         quickFix f = Some
           (case fseverity f of
              CRITICAL \<Rightarrow>
                \<lparr>fixType = comment,
                 replacement = str ''# '' @ trim (split 10 content ! (line f - 1))
                   @ str '' # SECURITY: '' @ fsuggestion f\<rparr>
            | WARNING \<Rightarrow> \<lparr>fixType = mask, replacement = key f @ str ''=***MASKED***''\<rparr>
            | INFO \<Rightarrow>
                \<lparr>fixType = comment,
                 replacement = str ''# '' @ trim (split 10 content ! (line f - 1))
                   @ str '' # INFO: '' @ fsuggestion f\<rparr>))"
proof (intro conjI ballI)
  show "generateQuickFix rule k v fullLine =
     (case severity rule of
        CRITICAL \<Rightarrow>
          \<lparr>fixType = comment,
           replacement = str ''# '' @ fullLine @ str '' # SECURITY: '' @ suggestion rule\<rparr>
      | WARNING \<Rightarrow> \<lparr>fixType = mask, replacement = k @ str ''=***MASKED***''\<rparr>
      | INFO \<Rightarrow>
          \<lparr>fixType = comment,
           replacement = str ''# '' @ fullLine @ str '' # INFO: '' @ suggestion rule\<rparr>)"
    by (rule generateQuickFix_cases)
  show "fixType (generateQuickFix rule k v fullLine) \<noteq> remove"
    by (simp add: generateQuickFix_cases split: Severity.splits)
next
  fix f
  assume "f \<in> set (findings (scanContent rules now content fp))"
  from finding_origin [OF this] obtain i r k' v' where
    ln: "line f = Suc i"
    and a: "applyRule r k' v' (Suc i) (trim (split 10 content ! i)) = Some f"
    by blast
  from ln have idx: "line f - 1 = i" by simp
  from applyRule_fields [OF a] show "quickFix f = Some
           (case fseverity f of
              CRITICAL \<Rightarrow>
                \<lparr>fixType = comment,
                 replacement = str ''# '' @ trim (split 10 content ! (line f - 1))
                   @ str '' # SECURITY: '' @ fsuggestion f\<rparr>
            | WARNING \<Rightarrow> \<lparr>fixType = mask, replacement = key f @ str ''=***MASKED***''\<rparr>
            | INFO \<Rightarrow>
                \<lparr>fixType = comment,
                 replacement = str ''# '' @ trim (split 10 content ! (line f - 1))
                   @ str '' # INFO: '' @ fsuggestion f\<rparr>)"
    unfolding idx by (simp add: generateQuickFix_cases split: Severity.splits)
qed

theorem quickFix_by_severity_witness:
  "map quickFix (findings (scanContent DEFAULT_RULES 0
      (str ''DB_PASSWORD=123456\<newline>API_KEY=secret123'') (str ''.env'')))
   = [Some \<lparr>fixType = comment, replacement =
        str ''# DB_PASSWORD=123456 # SECURITY: Remove hardcoded password and use secure environment variable injection''\<rparr>,
      Some \<lparr>fixType = mask, replacement = str ''DB_PASSWORD=***MASKED***''\<rparr>]"
proof -
  let ?R = "scanContent DEFAULT_RULES 0 (str ''DB_PASSWORD=123456\<newline>API_KEY=secret123'') (str ''.env'')"
  let ?p = "the (applyRule password_hardcoded (str ''DB_PASSWORD'') (str ''123456'') 1 (str ''DB_PASSWORD=123456''))"
  let ?w = "the (applyRule weak_password (str ''DB_PASSWORD'') (str ''123456'') 1 (str ''DB_PASSWORD=123456''))"
  have fs: "findings ?R = [?p, ?w]" by (rule scenario_findings)
  have all: "\<forall>f \<in> set (findings ?R). quickFix f = Some
           (case fseverity f of
              CRITICAL \<Rightarrow>
                \<lparr>fixType = comment,
                 replacement = str ''# '' @ trim (split 10 (str ''DB_PASSWORD=123456\<newline>API_KEY=secret123'') ! (line f - 1))
                   @ str '' # SECURITY: '' @ fsuggestion f\<rparr>
            | WARNING \<Rightarrow> \<lparr>fixType = mask, replacement = key f @ str ''=***MASKED***''\<rparr>
            | INFO \<Rightarrow>
                \<lparr>fixType = comment,
                 replacement = str ''# '' @ trim (split 10 (str ''DB_PASSWORD=123456\<newline>API_KEY=secret123'') ! (line f - 1))
                   @ str '' # INFO: '' @ fsuggestion f\<rparr>)"
    using quickFix_by_severity [of password_hardcoded "[]" "[]" "[]" DEFAULT_RULES 0
        "str ''DB_PASSWORD=123456\<newline>API_KEY=secret123''" "str ''.env''"]
    by blast
  have "quickFix ?p = Some \<lparr>fixType = comment, replacement =
        str ''# DB_PASSWORD=123456 # SECURITY: Remove hardcoded password and use secure environment variable injection''\<rparr>"
    using all [unfolded fs, THEN bspec, of ?p]
    by (simp add: finding_password split_scenario trim_password_line str_append)
  moreover have "quickFix ?w = Some \<lparr>fixType = mask, replacement = str ''DB_PASSWORD=***MASKED***''\<rparr>"
    using all [unfolded fs, THEN bspec, of ?w]
    by (simp add: finding_weak str_append)
  ultimately show ?thesis by (simp add: fs)
qed

section \<open>Order of the findings\<close>

text \<open>
  C6. The findings of a scan are in ascending line order, and the findings of one parsed
  line are those of the enabled rules that match it, one per rule, in the order of the
  rule list: every enabled rule is applied to every parsed line.
\<close>

theorem findings_order:
  "sorted (map line (findings (scanContent rules now content fp)))
   \<and> (\<forall>i<length (split 10 content).
         filter (\<lambda>f. line f = Suc i) (findings (scanContent rules now content fp)) =
           (case parseLine (split 10 content ! i) of
              None \<Rightarrow> []
            | Some (t, k, v) \<Rightarrow>
                List.map_filter (\<lambda>r. if enabled r then applyRule r k v (Suc i) t else None) rules))"
proof (intro conjI allI impI)
  show "sorted (map line (findings (scanContent rules now content fp)))"
    using sorted_blocks [of rules "split 10 content" 0] by (simp add: findings_scanContent)
next
  fix i
  assume "i < length (split 10 content)"
  from filter_blocks [OF this, of 0 rules]
  show "filter (\<lambda>f. line f = Suc i) (findings (scanContent rules now content fp)) =
           (case parseLine (split 10 content ! i) of
              None \<Rightarrow> []
            | Some (t, k, v) \<Rightarrow>
                List.map_filter (\<lambda>r. if enabled r then applyRule r k v (Suc i) t else None) rules)"
    by (simp add: findings_scanContent scanLine_Nil map_filter_rules split: option.splits)
qed

theorem findings_order_witness:
  "sorted (map line (findings (scanContent DEFAULT_RULES 0
      (str ''DB_PASSWORD=123456\<newline>API_KEY=secret123'') (str ''.env''))))
   \<and> map ruleId (filter (\<lambda>f. line f = Suc 0) (findings (scanContent DEFAULT_RULES 0
      (str ''DB_PASSWORD=123456\<newline>API_KEY=secret123'') (str ''.env''))))
     = [str ''password-hardcoded'', str ''weak-password'']
   \<and> filter (\<lambda>f. line f = Suc 1) (findings (scanContent DEFAULT_RULES 0
      (str ''DB_PASSWORD=123456\<newline>API_KEY=secret123'') (str ''.env''))) = []"
proof -
  let ?c = "str ''DB_PASSWORD=123456\<newline>API_KEY=secret123''"
  let ?R = "scanContent DEFAULT_RULES 0 ?c (str ''.env'')"
  note th = findings_order [of DEFAULT_RULES 0 ?c "str ''.env''"]
  from th have s: "sorted (map line (findings ?R))" by blast
  have len: "0 < length (split 10 ?c)" "1 < length (split 10 ?c)"
    by (simp_all add: split_scenario)
  from th len(1) have "filter (\<lambda>f. line f = Suc 0) (findings ?R) =
      (case parseLine (split 10 ?c ! 0) of None \<Rightarrow> []
       | Some (t, k, v) \<Rightarrow>
           List.map_filter (\<lambda>r. if enabled r then applyRule r k v (Suc 0) t else None) DEFAULT_RULES)"
    by blast
  then have "filter (\<lambda>f. line f = Suc 0) (findings ?R) =
      List.map_filter (\<lambda>r. if enabled r then applyRule r (str ''DB_PASSWORD'') (str ''123456'') (Suc 0)
         (str ''DB_PASSWORD=123456'') else None) DEFAULT_RULES"
    by (simp add: split_scenario parse_password_line)
  then have l1: "map ruleId (filter (\<lambda>f. line f = Suc 0) (findings ?R))
      = [str ''password-hardcoded'', str ''weak-password'']"
    by (simp add: DEFAULT_RULES_def map_filter_simps catalog_enabled applyRule_def
        matches_password_line catalog_rid)
  from th len(2) have "filter (\<lambda>f. line f = Suc 1) (findings ?R) =
      (case parseLine (split 10 ?c ! 1) of None \<Rightarrow> []
       | Some (t, k, v) \<Rightarrow>
           List.map_filter (\<lambda>r. if enabled r then applyRule r k v (Suc 1) t else None) DEFAULT_RULES)"
    by blast
  then have l2: "filter (\<lambda>f. line f = Suc 1) (findings ?R) = []"
    by (simp add: split_scenario parse_api_line DEFAULT_RULES_def map_filter_simps
        catalog_enabled applyRule_def matches_api_line)
  from s l1 l2 show ?thesis by blast
qed

section \<open>The report summary\<close>

text \<open>
  C7. The summary counts the results and sums their findings and their three counters.
  For no results all five fields are zero and the console report is the banner and the
  three summary lines, with no file section. Both functions are total: \<open>reduce\<close> is
  called with an initial value, so the empty array raises nothing.
\<close>

theorem summary_sums:
  "filesScanned (generateSummary results) = length results
   \<and> totalFindings (generateSummary results) = sum_list (map (\<lambda>r. length (findings r)) results)
   \<and> critical (generateSummary results) = sum_list (map criticalCount results)
   \<and> warnings (generateSummary results) = sum_list (map warningCount results)
   \<and> info (generateSummary results) = sum_list (map infoCount results)
   \<and> generateSummary [] =
       \<lparr>filesScanned = 0, totalFindings = 0, critical = 0, warnings = 0, info = 0\<rparr>
   \<and> generateConsoleReport [] =
       [10] @ str ''=== ENV-CHECKER SECURITY REPORT ==='' @ [10, 10]
       @ str ''Files scanned: 0'' @ [10]
       @ str ''Total findings: 0'' @ [10]
       @ str ''Critical: 0 | Warnings: 0 | Info: 0'' @ [10, 10]"
proof (intro conjI)
  show "generateConsoleReport [] =
       [10] @ str ''=== ENV-CHECKER SECURITY REPORT ==='' @ [10, 10]
       @ str ''Files scanned: 0'' @ [10]
       @ str ''Total findings: 0'' @ [10]
       @ str ''Critical: 0 | Warnings: 0 | Info: 0'' @ [10, 10]"
    by (simp add: generateConsoleReport_def generateSummary_def showNat_digit str_def)
qed (simp_all add: generateSummary_def Let_def foldl_sum)

theorem summary_sums_witness:
  "generateSummary [scanContent DEFAULT_RULES 0
      (str ''DB_PASSWORD=123456\<newline>API_KEY=secret123'') (str ''.env''),
      scanContent DEFAULT_RULES 0 [] (str ''empty.env'')]
   = \<lparr>filesScanned = 2, totalFindings = 2, critical = 1, warnings = 1, info = 0\<rparr>"
proof -
  let ?rs = "[scanContent DEFAULT_RULES 0
      (str ''DB_PASSWORD=123456\<newline>API_KEY=secret123'') (str ''.env''),
      scanContent DEFAULT_RULES 0 [] (str ''empty.env'')]"
  have e: "scanContent DEFAULT_RULES 0 [] (str ''empty.env'') =
     \<lparr>filePath = str ''empty.env'', findings = [], scannedAt = 0, totalLines = 1,
      criticalCount = 0, warningCount = 0, infoCount = 0\<rparr>"
    by (simp add: scanContent_def createScanResult_def scanLine_def parseLine_def trim_def)
  from summary_sums [of ?rs]
  have "filesScanned (generateSummary ?rs) = 2" "totalFindings (generateSummary ?rs) = 2"
    "critical (generateSummary ?rs) = 1" "warnings (generateSummary ?rs) = 1"
    "info (generateSummary ?rs) = 0"
    by (simp_all add: scenario_result e)
  then show ?thesis by (cases "generateSummary ?rs") simp
qed

section \<open>Toggling and looking up rules\<close>

text \<open>
  C8. \<open>toggleRule\<close> writes the flag of the first rule object in the array whose id is
  the given one and leaves every other object alone; when no rule has that id the store
  is unchanged. \<open>getRuleById\<close> returns that first object, and nothing (\<open>undefined\<close>)
  for an unknown id.
\<close>

theorem toggleRule_first_match:
  "(\<forall>i<length rs. rid (h (rs ! i)) = rule_id \<and> (\<forall>j<i. rid (h (rs ! j)) \<noteq> rule_id)
       \<longrightarrow> toggleRule h rs rule_id en = h(rs ! i := (h (rs ! i))\<lparr>enabled := en\<rparr>))
   \<and> ((\<forall>r\<in>set rs. rid (h r) \<noteq> rule_id) \<longrightarrow> toggleRule h rs rule_id en = h)
   \<and> (\<forall>i<length ds. rid (h (ds ! i)) = rule_id \<and> (\<forall>j<i. rid (h (ds ! j)) \<noteq> rule_id)
       \<longrightarrow> getRuleById h ds rule_id = Some (ds ! i))
   \<and> ((\<forall>r\<in>set ds. rid (h r) \<noteq> rule_id) \<longrightarrow> getRuleById h ds rule_id = None)"
proof (intro conjI allI impI)
  fix i
  assume "i < length rs"
    and "rid (h (rs ! i)) = rule_id \<and> (\<forall>j<i. rid (h (rs ! j)) \<noteq> rule_id)"
  then have "find (\<lambda>r. rid (h r) = rule_id) rs = Some (rs ! i)"
    unfolding find_Some_iff by blast
  then show "toggleRule h rs rule_id en = h(rs ! i := (h (rs ! i))\<lparr>enabled := en\<rparr>)"
    by (simp add: toggleRule_def)
next
  assume "\<forall>r\<in>set rs. rid (h r) \<noteq> rule_id"
  then have "find (\<lambda>r. rid (h r) = rule_id) rs = None"
    unfolding find_None_iff by blast
  then show "toggleRule h rs rule_id en = h"
    by (simp add: toggleRule_def)
next
  fix i
  assume "i < length ds"
    and "rid (h (ds ! i)) = rule_id \<and> (\<forall>j<i. rid (h (ds ! j)) \<noteq> rule_id)"
  then show "getRuleById h ds rule_id = Some (ds ! i)"
    unfolding getRuleById_def find_Some_iff by blast
next
  assume "\<forall>r\<in>set ds. rid (h r) \<noteq> rule_id"
  then show "getRuleById h ds rule_id = None"
    unfolding getRuleById_def find_None_iff by blast
qed

theorem toggleRule_first_match_witness:
  "toggleRule catalogStore catalogRefs (str ''debug-enabled'') False
     = catalogStore(3 := debug_enabled\<lparr>enabled := False\<rparr>)
   \<and> toggleRule catalogStore catalogRefs (str ''non-existent-rule'') False = catalogStore
   \<and> getRuleById catalogStore catalogRefs (str ''debug-enabled'') = Some 3
   \<and> getRuleById catalogStore catalogRefs (str ''non-existent-rule'') = None"
proof -
  note th = toggleRule_first_match [of catalogRefs catalogStore _ False catalogRefs]
  have neq: "str ''password-hardcoded'' \<noteq> str ''debug-enabled''"
    "str ''api-key-exposed'' \<noteq> str ''debug-enabled''"
    "str ''database-url-exposed'' \<noteq> str ''debug-enabled''"
    by (simp_all add: str_def)
  have before: "\<forall>j<3. rid (catalogStore (catalogRefs ! j)) \<noteq> str ''debug-enabled''"
  proof (intro allI impI)
    fix j :: nat
    assume "j < 3"
    then consider "j = 0" | "j = Suc 0" | "j = 2" by linarith
    then show "rid (catalogStore (catalogRefs ! j)) \<noteq> str ''debug-enabled''"
      by cases (simp_all add: catalogRefs_def catalogStore_rid neq)
  qed
  have first: "3 < length catalogRefs"
    "rid (catalogStore (catalogRefs ! 3)) = str ''debug-enabled''
       \<and> (\<forall>j<3. rid (catalogStore (catalogRefs ! j)) \<noteq> str ''debug-enabled'')"
    using before by (simp_all add: catalogRefs_def catalogStore_rid)
  have none: "\<forall>r\<in>set catalogRefs. rid (catalogStore r) \<noteq> str ''non-existent-rule''"
    by (simp add: catalogRefs_def catalogStore_rid str_def)
  have at3: "catalogRefs ! 3 = 3" "catalogStore 3 = debug_enabled"
    by (simp_all add: catalogRefs_def catalogStore_def)
  from th [of "str ''debug-enabled''"] first
  have "toggleRule catalogStore catalogRefs (str ''debug-enabled'') False
          = catalogStore(catalogRefs ! 3 := (catalogStore (catalogRefs ! 3))\<lparr>enabled := False\<rparr>)"
    by blast
  moreover from th [of "str ''debug-enabled''"] first
  have "getRuleById catalogStore catalogRefs (str ''debug-enabled'') = Some (catalogRefs ! 3)"
    by blast
  moreover from th [of "str ''non-existent-rule''"] none
  have "toggleRule catalogStore catalogRefs (str ''non-existent-rule'') False = catalogStore"
    "getRuleById catalogStore catalogRefs (str ''non-existent-rule'') = None"
    by blast+
  ultimately show ?thesis by (simp add: at3)
qed

section \<open>Trimmed lines\<close>

text \<open>
  C9. A line is scanned through its trimmed text only: scanning a line and scanning its
  trimmed text give the same findings, and every finding comes from an enabled rule that
  matches the trimmed line, with the quick fix built from the trimmed line. So
  \<open>  DEBUG=true\<close>, which the anchored debug pattern does not match as it stands, is
  reported, and the replacement for an indented password line has lost the indentation.
\<close>

theorem trimmed_line_is_scanned:
  "scanLine rules fs (l, i) = scanLine rules fs (trim l, i)
   \<and> (\<forall>f\<in>set (findings (scanContent rules now content fp)).
        \<exists>r\<in>set rules. enabled r
          \<and> ruleMatches r (key f) (val f) (trim (split 10 content ! (line f - 1)))
          \<and> quickFix f = Some (generateQuickFix r (key f) (val f)
                                  (trim (split 10 content ! (line f - 1)))))
   \<and> \<not> test (the (pattern debug_enabled)) (str ''  DEBUG=true'')
   \<and> map ruleId (findings (scanContent DEFAULT_RULES now (str ''  DEBUG=true'') fp))
       = [str ''debug-enabled'']
   \<and> map quickFix (findings (scanContent DEFAULT_RULES now (str ''  DB_PASSWORD=hunter2  '') fp))
       = [Some \<lparr>fixType = comment, replacement =
            str ''# DB_PASSWORD=hunter2 # SECURITY: Remove hardcoded password and use secure environment variable injection''\<rparr>]"
proof (intro conjI ballI)
  show "scanLine rules fs (l, i) = scanLine rules fs (trim l, i)"
    by (simp add: scanLine_def parseLine_trim_arg)
next
  fix f
  assume "f \<in> set (findings (scanContent rules now content fp))"
  from finding_origin [OF this] obtain j r k v where
    ln: "line f = Suc j" and r: "r \<in> set rules" "enabled r"
    and a: "applyRule r k v (Suc j) (trim (split 10 content ! j)) = Some f"
    by blast
  from ln have idx: "line f - 1 = j" by simp
  from applyRule_fields [OF a] r
  show "\<exists>r\<in>set rules. enabled r
          \<and> ruleMatches r (key f) (val f) (trim (split 10 content ! (line f - 1)))
          \<and> quickFix f = Some (generateQuickFix r (key f) (val f)
                                  (trim (split 10 content ! (line f - 1))))"
    unfolding idx by auto
qed (simp_all add: raw_debug_line debug_findings finding_debug padded_findings finding_padded)

theorem trimmed_line_is_scanned_witness:
  "scanLine DEFAULT_RULES [] (str ''  DEBUG=true'', 0)
     = scanLine DEFAULT_RULES [] (str ''DEBUG=true'', 0)
   \<and> (\<exists>r\<in>set DEFAULT_RULES. enabled r
          \<and> ruleMatches r (str ''DEBUG'') (str ''true'') (str ''DEBUG=true''))"
proof -
  let ?f = "the (applyRule debug_enabled (str ''DEBUG'') (str ''true'') 1 (str ''DEBUG=true''))"
  note th = trimmed_line_is_scanned [of DEFAULT_RULES "[]" "str ''  DEBUG=true''" 0 0
      "str ''  DEBUG=true''" "str ''.env''"]
  have t: "trim (str ''  DEBUG=true'') = str ''DEBUG=true''"
    by (simp add: trim_def isWhiteSpace_def str_def)
  have s: "split 10 (str ''  DEBUG=true'') = [str ''  DEBUG=true'']" by (simp add: str_def)
  have mem: "?f \<in> set (findings (scanContent DEFAULT_RULES 0 (str ''  DEBUG=true'') (str ''.env'')))"
    by (simp add: debug_findings)
  from th mem have "\<exists>r\<in>set DEFAULT_RULES. enabled r
      \<and> ruleMatches r (key ?f) (val ?f) (trim (split 10 (str ''  DEBUG=true'') ! (line ?f - 1)))"
    by blast
  then have "\<exists>r\<in>set DEFAULT_RULES. enabled r
      \<and> ruleMatches r (str ''DEBUG'') (str ''true'') (str ''DEBUG=true'')"
    by (simp add: finding_debug s t)
  moreover from th have "scanLine DEFAULT_RULES [] (str ''  DEBUG=true'', 0)
     = scanLine DEFAULT_RULES [] (trim (str ''  DEBUG=true''), 0)"
    by blast
  ultimately show ?thesis by (simp add: t)
qed

section \<open>Keys and values\<close>

text \<open>
  C10, as stated, fails: \<open>A=1\<close>, carriage return, \<open>B=2\<close> (one line of a file whose lines
  end in CR alone) is trimmed, is no comment, contains \<open>=\<close> and does not start with it,
  and yet no key and value are extracted: the dot of the shape's second group does not
  match the carriage return.
\<close>

theorem key_value_counterexample:
  "trim (str ''A=1'' @ [13] @ str ''B=2'') = str ''A=1'' @ [13] @ str ''B=2''
   \<and> \<not> startsWith (str ''A=1'' @ [13] @ str ''B=2'') (str ''#'')
   \<and> 61 \<in> set (str ''A=1'' @ [13] @ str ''B=2'')
   \<and> hd (str ''A=1'' @ [13] @ str ''B=2'') \<noteq> 61
   \<and> parseLine (str ''A=1'' @ [13] @ str ''B=2'') = None"
  by (simp add: px)

text \<open>
  C10, amended. For a line whose trimmed text is not empty, is no comment, contains \<open>=\<close>,
  does not start with it and has no line terminator (CR, U+2028, U+2029) after the first
  \<open>=\<close>, the key is the trimmed text before the first \<open>=\<close> and the value the trimmed rest
  after it, which may contain further \<open>=\<close> or be empty. A line whose trimmed text starts
  with \<open>=\<close> is skipped and adds no finding. In general a line is parsed exactly when its
  trimmed text is not empty, is no comment and matches \<open>/^([^=]+)=(.*)$/\<close>.
\<close>

theorem key_value_extraction:
  "(trim l \<noteq> [] \<and> \<not> startsWith (trim l) (str ''#'') \<and> 61 \<in> set (trim l) \<and> hd (trim l) \<noteq> 61
      \<and> (\<forall>c\<in>set (tl (dropWhile (\<lambda>c. c \<noteq> 61) (trim l))). \<not> isLineTerminator c)
    \<longrightarrow> parseLine l = Some (trim l, trim (takeWhile (\<lambda>c. c \<noteq> 61) (trim l)),
                           trim (tl (dropWhile (\<lambda>c. c \<noteq> 61) (trim l)))))
   \<and> (trim l \<noteq> [] \<and> hd (trim l) = 61
        \<longrightarrow> parseLine l = None \<and> scanLine rules fs (l, i) = fs)
   \<and> (parseLine l \<noteq> None)
       = (trim l \<noteq> [] \<and> \<not> startsWith (trim l) (str ''#'') \<and> test keyValueShape (trim l))"
proof (intro conjI impI)
  assume a: "trim l \<noteq> [] \<and> \<not> startsWith (trim l) (str ''#'') \<and> 61 \<in> set (trim l)
      \<and> hd (trim l) \<noteq> 61
      \<and> (\<forall>c\<in>set (tl (dropWhile (\<lambda>c. c \<noteq> 61) (trim l))). \<not> isLineTerminator c)"
  then have "takeWhile (\<lambda>c. c \<noteq> 61) (trim l) \<noteq> []"
    by (cases "trim l") auto
  moreover from a have "dropWhile (\<lambda>c. c \<noteq> 61) (trim l) \<noteq> []"
    by (simp add: dropWhile_eq_Nil_conv)
  ultimately have "matchKeyValue (trim l)
      = Some (takeWhile (\<lambda>c. c \<noteq> 61) (trim l), tl (dropWhile (\<lambda>c. c \<noteq> 61) (trim l)))"
    using a by (simp add: matchKeyValue_def Let_def list_ex_iff)
  with a show "parseLine l = Some (trim l, trim (takeWhile (\<lambda>c. c \<noteq> 61) (trim l)),
                           trim (tl (dropWhile (\<lambda>c. c \<noteq> 61) (trim l))))"
    by (simp add: parseLine_def Let_def)
next
  assume a: "trim l \<noteq> [] \<and> hd (trim l) = 61"
  then have "takeWhile (\<lambda>c. c \<noteq> 61) (trim l) = []"
    by (cases "trim l") auto
  then have "matchKeyValue (trim l) = None"
    by (simp add: matchKeyValue_def)
  then show p: "parseLine l = None"
    by (simp add: parseLine_def Let_def)
  then show "scanLine rules fs (l, i) = fs"
    by (simp add: scanLine_def)
next
  show "(parseLine l \<noteq> None)
       = (trim l \<noteq> [] \<and> \<not> startsWith (trim l) (str ''#'') \<and> test keyValueShape (trim l))"
    unfolding matchKeyValue_shape [symmetric]
    by (auto simp: parseLine_def Let_def split: option.splits)
qed

theorem key_value_extraction_witness:
  "parseLine (str ''  KEY = a=b  '') = Some (str ''KEY = a=b'', str ''KEY'', str ''a=b'')
   \<and> parseLine (str ''EMPTY='') = Some (str ''EMPTY='', str ''EMPTY'', [])
   \<and> parseLine (str '' =x'') = None
   \<and> scanLine DEFAULT_RULES [] (str '' =x'', 0) = []"
proof -
  have t: "trim (str ''  KEY = a=b  '') = str ''KEY = a=b''"
    "trim (str ''EMPTY='') = str ''EMPTY=''" "trim (str '' =x'') = str ''=x''"
    by (simp_all add: trim_def isWhiteSpace_def str_def)
  have 1: "parseLine (str ''  KEY = a=b  '') = Some (str ''KEY = a=b'', str ''KEY'', str ''a=b'')"
    using key_value_extraction [of "str ''  KEY = a=b  ''" DEFAULT_RULES "[]" 0]
    unfolding t by (simp add: startsWith_def isLineTerminator_def str_def trim_def isWhiteSpace_def)
  have 2: "parseLine (str ''EMPTY='') = Some (str ''EMPTY='', str ''EMPTY'', [])"
    using key_value_extraction [of "str ''EMPTY=''" DEFAULT_RULES "[]" 0]
    unfolding t by (simp add: startsWith_def isLineTerminator_def str_def trim_def isWhiteSpace_def)
  have 3: "parseLine (str '' =x'') = None \<and> scanLine DEFAULT_RULES [] (str '' =x'', 0) = []"
    using key_value_extraction [of "str '' =x''" DEFAULT_RULES "[]" 0]
    unfolding t by (simp add: str_def)
  from 1 2 3 show ?thesis by simp
qed

end
